theory Spec2Isabelle
  imports
    Main
    "HOL-Library.AList"
    "HOL-Library.Char_ord"
    "HOL-Library.List_Lexorder"
    "HOL-Library.Multiset"
begin

section \<open>Configuration values\<close>

text \<open>
  The merged configuration of \<^verbatim>\<open>kas_checkout.py\<close> is a Python dictionary read from
  YAML/JSON files: nested mappings, sequences and scalars.  A mapping is an association
  list in insertion order (Python dictionaries iterate in insertion order); its keys are
  strings, and a well-formed mapping has distinct keys.  Strings are lists of characters;
  floating point scalars are not modelled.
\<close>

datatype pyval =
    VNone
  | VBool bool
  | VInt int
  | VStr string
  | VList "pyval list"
  | VDict "(string \<times> pyval) list"

type_synonym pydict = "(string \<times> pyval) list"

datatype pyerror =
    IncludeException string
  | KeyError
  | TypeError
  | AttributeError
  | IndexError
  | OtherError

text \<open>Python truthiness, as used by \<^verbatim>\<open>if x:\<close> and \<^verbatim>\<open>x or y\<close>.\<close>

fun truthy :: "pyval \<Rightarrow> bool" where
  "truthy VNone = False"
| "truthy (VBool b) = b"
| "truthy (VInt i) = (i \<noteq> 0)"
| "truthy (VStr s) = (s \<noteq> [])"
| "truthy (VList xs) = (xs \<noteq> [])"
| "truthy (VDict d) = (d \<noteq> [])"

text \<open>\<^verbatim>\<open>d.get(k, default)\<close> on a dictionary.\<close>

definition dict_get :: "pydict \<Rightarrow> string \<Rightarrow> pyval \<Rightarrow> pyval" where
  "dict_get d k dflt = (case map_of d k of Some v \<Rightarrow> v | None \<Rightarrow> dflt)"

text \<open>
  \<^verbatim>\<open>x.get(k, default)\<close> on an arbitrary value: only a mapping has a \<^verbatim>\<open>get\<close> method,
  every other value raises AttributeError.
\<close>

definition val_get :: "pyval \<Rightarrow> string \<Rightarrow> pyval \<Rightarrow> pyerror + pyval" where
  "val_get x k dflt = (case x of VDict d \<Rightarrow> Inr (dict_get d k dflt) | _ \<Rightarrow> Inl AttributeError)"

text \<open>
  \<^verbatim>\<open>x[k]\<close> with a string key: KeyError on a mapping without the key, TypeError on a
  sequence, a string or a scalar (their indices are not strings, or they are not
  subscriptable).
\<close>

definition subscript :: "pyval \<Rightarrow> string \<Rightarrow> pyerror + pyval" where
  "subscript x k =
     (case x of
        VDict d \<Rightarrow> (case map_of d k of Some v \<Rightarrow> Inr v | None \<Rightarrow> Inl KeyError)
      | _ \<Rightarrow> Inl TypeError)"

section \<open>The collaborators outside the file\<close>

text \<open>
  \<^verbatim>\<open>kas_checkout.py\<close> calls the process environment, \<^verbatim>\<open>os.path\<close> and the \<^verbatim>\<open>kas\<close>
  package (\<^verbatim>\<open>Repo.get_root_path\<close>, \<^verbatim>\<open>Repo.factory\<close>, \<^verbatim>\<open>IncludeHandler\<close>).  Their code
  is not part of the file; the model takes them as parameters, collected in one record.
  The include handler is an abstract type \<open>'h\<close>, a repository object an abstract type
  \<open>'r\<close>.  \<open>str_of\<close> stands for the built-in \<^verbatim>\<open>str()\<close> on values that are not strings, and
  \<open>set_iter\<close> for the iteration order of a Python set of strings built by adding the
  given elements one after the other.  \<open>get_root_path p fallback\<close> returns \<open>None\<close> for
  Python's \<^verbatim>\<open>None\<close>.
\<close>

record ('h, 'r) externals =
  environ :: "string \<Rightarrow> string option"
  abspath :: "string \<Rightarrow> string"
  dirname :: "string \<Rightarrow> string"
  get_root_path :: "string \<Rightarrow> bool \<Rightarrow> string option"
  IncludeHandler :: "string list \<Rightarrow> string option \<Rightarrow> bool \<Rightarrow> 'h"
  handler_get_config :: "'h \<Rightarrow> (string \<times> string) list \<Rightarrow> pyerror + (pydict \<times> string list)"
  get_top_repo_path :: "'h \<Rightarrow> string option"
  Repo_factory :: "string \<Rightarrow> pyval \<Rightarrow> pyval \<Rightarrow> string option \<Rightarrow> pyval \<Rightarrow> pyerror + 'r"
  str_of :: "pyval \<Rightarrow> string"
  set_iter :: "string list \<Rightarrow> string list"

text \<open>\<^verbatim>\<open>os.environ.get(name, default)\<close>: the variable's value as a string value when set.\<close>

definition environ_get :: "('h, 'r) externals \<Rightarrow> string \<Rightarrow> pyval \<Rightarrow> pyval" where
  "environ_get w name dflt = (case environ w name of Some v \<Rightarrow> VStr v | None \<Rightarrow> dflt)"

section \<open>The class Config\<close>

text \<open>
  The attributes of a \<^verbatim>\<open>Config\<close> object.  The attributes \<^verbatim>\<open>_override_target\<close>,
  \<^verbatim>\<open>_override_task\<close> and \<^verbatim>\<open>_config\<close> are written with the prefix \<open>u_\<close>.
\<close>

record ('h, 'r) Config =
  u_override_target :: pyval
  u_override_task :: pyval
  u_config :: pydict
  filenames :: "string list"
  handler :: 'h
  repo_dict :: "(string \<times> 'r) list"

definition get_machine :: "('h, 'r) externals \<Rightarrow> ('h, 'r) Config \<Rightarrow> pyval" where
  "get_machine w c =
     environ_get w ''KAS_MACHINE'' (dict_get (u_config c) ''machine'' (VStr ''qemux86-64''))"

section \<open>String operations\<close>

text \<open>
  A character is a code point below 256.  \<open>isspace\<close> is Python's \<^verbatim>\<open>str.isspace\<close> on
  these: tab, line feed, vertical tab, form feed, carriage return, the four separators
  0x1C to 0x1F, the space, and the Latin-1 characters 0x85 and 0xA0.
\<close>

definition isspace :: "char \<Rightarrow> bool" where
  "isspace ch \<longleftrightarrow>
     ch \<in> set [CHR 0x09, CHR 0x0A, CHR 0x0B, CHR 0x0C, CHR 0x0D,
                CHR 0x1C, CHR 0x1D, CHR 0x1E, CHR 0x1F, CHR 0x20, CHR 0x85, CHR 0xA0]"

text \<open>
  \<^verbatim>\<open>s.split()\<close> without a separator: runs of whitespace separate the tokens, and no
  token is empty.  \<open>cur\<close> is the token read so far.
\<close>

fun split_ws_from :: "string \<Rightarrow> string \<Rightarrow> string list" where
  "split_ws_from cur [] = (if cur = [] then [] else [cur])"
| "split_ws_from cur (ch # s) =
     (if isspace ch
      then (if cur = [] then split_ws_from [] s else cur # split_ws_from [] s)
      else split_ws_from (cur @ [ch]) s)"

definition split_ws :: "string \<Rightarrow> string list" where
  "split_ws s = split_ws_from [] s"

text \<open>
  \<^verbatim>\<open>s.split(sep)\<close> with a one-character separator: every occurrence separates two
  fields, fields may be empty, and the result has at least one field.
\<close>

fun split_on :: "char \<Rightarrow> string \<Rightarrow> string list" where
  "split_on sep [] = [[]]"
| "split_on sep (ch # s) =
     (if ch = sep then [] # split_on sep s
      else (case split_on sep s of [] \<Rightarrow> [[ch]] | t # ts \<Rightarrow> (ch # t) # ts))"

text \<open>\<^verbatim>\<open>s.startswith(p)\<close>.\<close>

definition startswith :: "string \<Rightarrow> string \<Rightarrow> bool" where
  "startswith s p \<longleftrightarrow> take (length p) s = p"

text \<open>\<^verbatim>\<open>sep.join(xs)\<close>.\<close>

fun join_with :: "string \<Rightarrow> string list \<Rightarrow> string" where
  "join_with sep [] = []"
| "join_with sep [x] = x"
| "join_with sep (x # y # ys) = x @ sep @ join_with sep (y # ys)"

section \<open>Targets and multiconfig\<close>

definition get_bitbake_targets :: "('h, 'r) externals \<Rightarrow> ('h, 'r) Config \<Rightarrow> pyval" where
  "get_bitbake_targets w c =
     (if truthy (u_override_target c) then u_override_target c
      else
        let environ_targets =
              filter (\<lambda>i. i \<noteq> [])
                (split_ws (case environ w ''KAS_TARGET'' of Some s \<Rightarrow> s | None \<Rightarrow> []))
        in if environ_targets \<noteq> [] then VList (map VStr environ_targets)
           else
             let target = dict_get (u_config c) ''target'' (VStr ''core-image-minimal'')
             in (case target of VStr s \<Rightarrow> VList [target] | _ \<Rightarrow> target))"

text \<open>
  What a \<^verbatim>\<open>for\<close> loop over a value visits: the elements of a sequence, the characters
  of a string, the keys of a mapping; a scalar is not iterable.
\<close>

definition iter_values :: "pyval \<Rightarrow> pyerror + pyval list" where
  "iter_values x =
     (case x of
        VList xs \<Rightarrow> Inr xs
      | VStr s \<Rightarrow> Inr (map (\<lambda>ch. VStr [ch]) s)
      | VDict d \<Rightarrow> Inr (map (\<lambda>kv. VStr (fst kv)) d)
      | _ \<Rightarrow> Inl TypeError)"

text \<open>
  The loop of \<^verbatim>\<open>get_multiconfig\<close>.  \<open>added\<close> lists the elements added to the set
  \<^verbatim>\<open>multiconfigs\<close> so far, in the order of the calls of \<^verbatim>\<open>add\<close>.  Only a string has
  the method \<^verbatim>\<open>startswith\<close>; \<^verbatim>\<open>target.split(':')[1]\<close> raises IndexError when the
  split has one field.
\<close>

fun collect_multiconfigs :: "string list \<Rightarrow> pyval list \<Rightarrow> pyerror + string list" where
  "collect_multiconfigs added [] = Inr added"
| "collect_multiconfigs added (t # ts) =
     (case t of
        VStr target \<Rightarrow>
          (if startswith target ''multiconfig:'' \<or> startswith target ''mc:''
           then (case split_on CHR '':'' target of
                   f0 # f1 # fs \<Rightarrow> collect_multiconfigs (added @ [f1]) ts
                 | _ \<Rightarrow> Inl IndexError)
           else collect_multiconfigs added ts)
      | _ \<Rightarrow> Inl AttributeError)"

definition get_multiconfig :: "('h, 'r) externals \<Rightarrow> ('h, 'r) Config \<Rightarrow> pyerror + string" where
  "get_multiconfig w c =
     (case iter_values (get_bitbake_targets w c) of
        Inl e \<Rightarrow> Inl e
      | Inr ts \<Rightarrow>
          (case collect_multiconfigs [] ts of
             Inl e \<Rightarrow> Inl e
           | Inr added \<Rightarrow> Inr (join_with '' '' (set_iter w added))))"

section \<open>Configuration headers\<close>






section \<open>Comprehensions over a mapping\<close>

text \<open>
  A comprehension evaluates its element expression for one key after the other and
  stops at the first exception.
\<close>

fun traverse :: "('a \<Rightarrow> pyerror + 'b) \<Rightarrow> 'a list \<Rightarrow> pyerror + 'b list" where
  "traverse f [] = Inr []"
| "traverse f (x # xs) =
     (case f x of
        Inl e \<Rightarrow> Inl e
      | Inr y \<Rightarrow> (case traverse f xs of Inl e \<Rightarrow> Inl e | Inr ys \<Rightarrow> Inr (y # ys)))"

text \<open>
  \<^verbatim>\<open>get_environment\<close>.  The comprehension runs over the keys of the \<^verbatim>\<open>env\<close> mapping and
  evaluates \<^verbatim>\<open>env[var]\<close> before it asks the process environment.  An \<^verbatim>\<open>env\<close> entry that
  is no mapping is outside the configuration format: the empty sequence and the empty
  string give the empty result, every other such value is reported as \<open>OtherError\<close>
  (the class of the Python exception is not modelled there).
\<close>

definition get_environment :: "('h, 'r) externals \<Rightarrow> ('h, 'r) Config \<Rightarrow> pyerror + pydict" where
  "get_environment w c =
     (let env = dict_get (u_config c) ''env'' (VDict []) in
      case env of
        VDict d \<Rightarrow>
          traverse
            (\<lambda>var. case subscript env var of
                      Inl e \<Rightarrow> Inl e
                    | Inr dflt \<Rightarrow> Inr (var, environ_get w var dflt))
            (map fst d)
      | VList [] \<Rightarrow> Inr []
      | VStr [] \<Rightarrow> Inr []
      | _ \<Rightarrow> Inl OtherError)"

section \<open>Repositories\<close>

definition get_repos_config :: "('h, 'r) Config \<Rightarrow> pyval" where
  "get_repos_config c = dict_get (u_config c) ''repos'' (VDict [])"

text \<open>
  \<^verbatim>\<open>get_repo\<close>: the defaults, the overrides and the repository's own entry are read in
  this order, each read can raise, and \<^verbatim>\<open>x or {}\<close> replaces a false entry (such as
  \<^verbatim>\<open>None\<close>) by the empty mapping.
\<close>

definition get_repo :: "('h, 'r) externals \<Rightarrow> ('h, 'r) Config \<Rightarrow> string \<Rightarrow> pyerror + 'r" where
  "get_repo w c name =
     (case val_get (dict_get (u_config c) ''defaults'' (VDict [])) ''repos'' (VDict []) of
        Inl e \<Rightarrow> Inl e
      | Inr repo_defaults \<Rightarrow>
     (case val_get (dict_get (u_config c) ''overrides'' (VDict [])) ''repos'' (VDict []) of
        Inl e \<Rightarrow> Inl e
      | Inr override_repos \<Rightarrow>
     (case val_get override_repos name (VDict []) of
        Inl e \<Rightarrow> Inl e
      | Inr overrides \<Rightarrow>
     (case subscript (get_repos_config c) name of
        Inl e \<Rightarrow> Inl e
      | Inr entry \<Rightarrow>
          let config = (if truthy entry then entry else VDict []);
              top_repo_path = get_top_repo_path w (handler c)
          in Repo_factory w name config repo_defaults top_repo_path overrides))))"

text \<open>
  \<^verbatim>\<open>_get_repo_dict\<close>: one repository object per key of the \<^verbatim>\<open>repos\<close> mapping, in the
  mapping's order.  A \<^verbatim>\<open>repos\<close> entry that is no mapping is outside the configuration
  format: the empty sequence and the empty string give the empty dictionary, every
  other such value is reported as \<open>OtherError\<close> (what Python does there is not modelled).
\<close>

definition get_repo_dict :: "('h, 'r) externals \<Rightarrow> ('h, 'r) Config \<Rightarrow> pyerror + (string \<times> 'r) list" where
  "get_repo_dict w c =
     (case get_repos_config c of
        VDict d \<Rightarrow>
          traverse
            (\<lambda>name. case get_repo w c name of Inl e \<Rightarrow> Inl e | Inr r \<Rightarrow> Inr (name, r))
            (map fst d)
      | VList [] \<Rightarrow> Inr []
      | VStr [] \<Rightarrow> Inr []
      | _ \<Rightarrow> Inl OtherError)"

text \<open>
  \<^verbatim>\<open>get_repos\<close> stores the fresh dictionary in the attribute \<^verbatim>\<open>repo_dict\<close> and returns
  its values: the result is the updated object and the list.
\<close>

definition get_repos :: "('h, 'r) externals \<Rightarrow> ('h, 'r) Config \<Rightarrow> pyerror + (('h, 'r) Config \<times> 'r list)" where
  "get_repos w c =
     (case get_repo_dict w c of
        Inl e \<Rightarrow> Inl e
      | Inr rd \<Rightarrow> Inr (c\<lparr>repo_dict := rd\<rparr>, map snd rd))"

text \<open>
  \<^verbatim>\<open>find_missing_repos\<close> replaces the stored configuration by the one the include
  handler resolves and returns the names the handler reports as missing.
\<close>

definition find_missing_repos ::
  "('h, 'r) externals \<Rightarrow> ('h, 'r) Config \<Rightarrow> (string \<times> string) list
     \<Rightarrow> pyerror + (('h, 'r) Config \<times> string list)" where
  "find_missing_repos w c repo_paths =
     (case handler_get_config w (handler c) repo_paths of
        Inl e \<Rightarrow> Inl e
      | Inr (cfg, missing_repo_names) \<Rightarrow> Inr (c\<lparr>u_config := cfg\<rparr>, missing_repo_names))"

section \<open>Construction\<close>

text \<open>
  \<^verbatim>\<open>Config.__init__\<close>.  The constructor either raises or returns the object;
  \<^verbatim>\<open>len(set(repo_paths)) > 1\<close> counts the distinct roots, \<^verbatim>\<open>None\<close> among them.
\<close>

definition Config_init ::
  "('h, 'r) externals \<Rightarrow> string \<Rightarrow> pyval \<Rightarrow> pyval \<Rightarrow> bool \<Rightarrow> pyerror + ('h, 'r) Config" where
  "Config_init w filename target task update =
     (let fns = map (abspath w) (split_on CHR '':'' filename) in
      case fns of
        [] \<Rightarrow> Inl IndexError
      | first # rest \<Rightarrow>
          let top_repo_path = get_root_path w (dirname w first) True;
              repo_paths = map (\<lambda>configfile. get_root_path w (dirname w configfile) False) fns
          in if length (remdups repo_paths) > 1
             then Inl (IncludeException
                    (''All concatenated config files must '' @
                     ''belong to the same repository or all '' @
                     ''must be outside of versioning control''))
             else
               let c = \<lparr> u_override_target = target,
                         u_override_task = task,
                         u_config = [],
                         filenames = fns,
                         handler = IncludeHandler w fns top_repo_path (\<not> update),
                         repo_dict = [] \<rparr>
               in (case get_repo_dict w c of
                     Inl e \<Rightarrow> Inl e
                   | Inr rd \<Rightarrow> Inr (c\<lparr>repo_dict := rd\<rparr>)))"

section \<open>The command InitSetupRepos\<close>

text \<open>
  The execution context, as far as \<^verbatim>\<open>InitSetupRepos.execute\<close> touches it.
  \<open>missing_repo_names_old = None\<close> is Python's \<^verbatim>\<open>None\<close>.
\<close>

record ('h, 'r) ExecutionContext =
  config :: "('h, 'r) Config"
  missing_repo_names :: "string list"
  missing_repo_names_old :: "string list option"

definition InitSetupRepos_execute ::
  "('h, 'r) externals \<Rightarrow> ('h, 'r) ExecutionContext \<Rightarrow> pyerror + ('h, 'r) ExecutionContext" where
  "InitSetupRepos_execute w ctx =
     (case find_missing_repos w (config ctx) [] of
        Inl e \<Rightarrow> Inl e
      | Inr (c, missing) \<Rightarrow>
          Inr (ctx\<lparr>config := c, missing_repo_names := missing, missing_repo_names_old := None\<rparr>))"

section \<open>The convergence loop, from the specification\<close>

text \<open>
  Modelled from the spec: the Convergence Loop Orchestrator (the classes \<^verbatim>\<open>Loop\<close> and
  \<^verbatim>\<open>SetupReposStep\<close> of \<^verbatim>\<open>kas.libcmds\<close>) is not in the file.  The specification gives
  the transitions out of the state Resolving: to Fetching when the current set of
  missing repositories is not empty, to Converged when it is empty, and to Failed when
  the newly computed set is identical to, or a superset of, the set of the previous
  pass.  The first pass has no previous set.
\<close>

datatype loop_state = Fetching | Converged | Failed

definition failed_condition :: "string list \<Rightarrow> string list option \<Rightarrow> bool" where
  "failed_condition current previous =
     (case previous of None \<Rightarrow> False | Some old \<Rightarrow> set old \<subseteq> set current)"

inductive resolving_transition :: "string list \<Rightarrow> string list option \<Rightarrow> loop_state \<Rightarrow> bool" where
  to_fetching: "current \<noteq> [] \<Longrightarrow> resolving_transition current previous Fetching"
| to_converged: "current = [] \<Longrightarrow> resolving_transition current previous Converged"
| to_failed: "failed_condition current previous \<Longrightarrow> resolving_transition current previous Failed"

code_pred resolving_transition .

section \<open>Repository handles, from the specification\<close>

text \<open>
  Modelled from the spec: \<^verbatim>\<open>Repo.factory\<close> of \<^verbatim>\<open>kas.repos\<close> is not in the file.  The
  specification describes the handle it returns: the name (the key of the mapping) and
  the merged field set produced by applying the defaults, then the repository's own
  entry, then the overrides of that name, later layers winning.  \<open>dict_update\<close> is
  \<^verbatim>\<open>dict.update\<close>: a key that is present keeps its place and takes the new value, a new
  key is appended.  Layers that are no mappings are reported as \<open>OtherError\<close>.
\<close>

record RepoHandle =
  repo_name :: string
  repo_fields :: pydict
  fallback_path :: "string option"

definition dict_update :: "pydict \<Rightarrow> pydict \<Rightarrow> pydict" where
  "dict_update base layer = foldl (\<lambda>acc kv. AList.update (fst kv) (snd kv) acc) base layer"

definition Repo_factory_spec ::
  "string \<Rightarrow> pyval \<Rightarrow> pyval \<Rightarrow> string option \<Rightarrow> pyval \<Rightarrow> pyerror + RepoHandle" where
  "Repo_factory_spec name repo_config repo_defaults repo_fallback_path repo_overrides =
     (case (repo_defaults, repo_config, repo_overrides) of
        (VDict dflt, VDict own, VDict ov) \<Rightarrow>
          Inr \<lparr> repo_name = name,
                repo_fields = dict_update (dict_update dflt own) ov,
                fallback_path = repo_fallback_path \<rparr>
      | _ \<Rightarrow> Inl OtherError)"

definition branch :: "RepoHandle \<Rightarrow> pyval option" where
  "branch h = map_of (repo_fields h) ''branch''"

section \<open>Sample inputs\<close>

text \<open>
  A concrete set of collaborators with a given process environment: paths are left as
  they are, nothing is under version control, the handler is the list of its files, a
  repository object is its name, and a set is iterated without repetitions.
\<close>

definition sample_externals :: "(string \<Rightarrow> string option) \<Rightarrow> (string list, string) externals" where
  "sample_externals env =
     \<lparr> environ = env,
       abspath = (\<lambda>p. p),
       dirname = (\<lambda>p. p),
       get_root_path = (\<lambda>p fallback. if fallback then Some p else None),
       IncludeHandler = (\<lambda>fs top lock. fs),
       handler_get_config = (\<lambda>h repos. Inr ([], [])),
       get_top_repo_path = (\<lambda>h. None),
       Repo_factory = (\<lambda>name cfg dflt top ov. Inr name),
       str_of = (\<lambda>v. ''?''),
       set_iter = remdups \<rparr>"

definition sample_config :: "pyval \<Rightarrow> pydict \<Rightarrow> (string list, string) Config" where
  "sample_config target cfg =
     \<lparr> u_override_target = target,
       u_override_task = VNone,
       u_config = cfg,
       filenames = [''kas.yml''],
       handler = [''kas.yml''],
       repo_dict = [] \<rparr>"

text \<open>
  A lookup of version-control roots: everything under \<^verbatim>\<open>/a/\<close> belongs to the root
  \<^verbatim>\<open>/a\<close>, everything under \<^verbatim>\<open>/b/\<close> to the root \<^verbatim>\<open>/b\<close>, and every other path is
  outside version control.
\<close>

definition sample_roots :: "string \<Rightarrow> bool \<Rightarrow> string option" where
  "sample_roots p fallback =
     (if take 3 p = ''/a/'' then Some ''/a''
      else if take 3 p = ''/b/'' then Some ''/b''
      else if fallback then Some p else None)"

text \<open>
  The same collaborators with the repository factory of the specification, and a
  configuration with a default branch, a repository \<^verbatim>\<open>foo\<close> without a branch and an
  override of the branch of \<^verbatim>\<open>foo\<close>.
\<close>

definition sample_spec_externals :: "(string list, RepoHandle) externals" where
  "sample_spec_externals =
     \<lparr> environ = Map.empty,
       abspath = (\<lambda>p. p),
       dirname = (\<lambda>p. p),
       get_root_path = (\<lambda>p fallback. if fallback then Some p else None),
       IncludeHandler = (\<lambda>fs top lock. fs),
       handler_get_config = (\<lambda>h repos. Inr ([], [])),
       get_top_repo_path = (\<lambda>h. None),
       Repo_factory = Repo_factory_spec,
       str_of = (\<lambda>v. ''?''),
       set_iter = remdups \<rparr>"

definition sample_layered_config :: "(string list, RepoHandle) Config" where
  "sample_layered_config =
     \<lparr> u_override_target = VNone,
       u_override_task = VNone,
       u_config =
         [(''defaults'', VDict [(''repos'', VDict [(''branch'', VStr ''main'')])]),
          (''repos'', VDict [(''foo'', VDict [(''url'', VStr ''https://example.org/foo.git'')])]),
          (''overrides'',
             VDict [(''repos'', VDict [(''foo'', VDict [(''branch'', VStr ''release'')])])])],
       filenames = [''kas.yml''],
       handler = [''kas.yml''],
       repo_dict = [] \<rparr>"

section \<open>Machine selection\<close>

text \<open>
  C4.  \<^verbatim>\<open>get_machine\<close> returns the value of the environment variable KAS_MACHINE when
  it is set; when it is unset it returns the configuration's \<^verbatim>\<open>machine\<close> entry when
  the configuration has one, and the default \<^verbatim>\<open>qemux86-64\<close> otherwise.  In particular a
  configuration with machine \<^verbatim>\<open>qemux86-64\<close> under KAS_MACHINE=raspberrypi4 gives
  \<^verbatim>\<open>raspberrypi4\<close>.
\<close>

theorem get_machine_precedence:
  "(environ w ''KAS_MACHINE'' = Some v \<longrightarrow> get_machine w c = VStr v) \<and>
   (environ w ''KAS_MACHINE'' = None \<and> map_of (u_config c) ''machine'' = Some m
      \<longrightarrow> get_machine w c = m) \<and>
   (environ w ''KAS_MACHINE'' = None \<and> map_of (u_config c) ''machine'' = None
      \<longrightarrow> get_machine w c = VStr ''qemux86-64'') \<and>
   (environ w ''KAS_MACHINE'' = Some ''raspberrypi4'' \<and>
    map_of (u_config c) ''machine'' = Some (VStr ''qemux86-64'')
      \<longrightarrow> get_machine w c = VStr ''raspberrypi4'')"
  by (simp add: get_machine_def environ_get_def dict_get_def)

theorem get_machine_precedence_witness:
  "get_machine (sample_externals [''KAS_MACHINE'' \<mapsto> ''raspberrypi4''])
     (sample_config VNone [(''machine'', VStr ''qemux86-64'')]) = VStr ''raspberrypi4'' \<and>
   get_machine (sample_externals Map.empty)
     (sample_config VNone [(''machine'', VStr ''qemuarm'')]) = VStr ''qemuarm'' \<and>
   get_machine (sample_externals Map.empty) (sample_config VNone []) = VStr ''qemux86-64''"
  using
    get_machine_precedence [of "sample_externals [''KAS_MACHINE'' \<mapsto> ''raspberrypi4'']"
      "''raspberrypi4''" "sample_config VNone [(''machine'', VStr ''qemux86-64'')]" "VStr ''qemux86-64''"]
    get_machine_precedence [of "sample_externals Map.empty" "''x''"
      "sample_config VNone [(''machine'', VStr ''qemuarm'')]" "VStr ''qemuarm''"]
    get_machine_precedence [of "sample_externals Map.empty" "''x''"
      "sample_config VNone []" "VStr ''x''"]
  by (simp add: sample_externals_def sample_config_def)

section \<open>Splitting strings\<close>

lemma split_on_ne: "split_on sep s \<noteq> []"
  by (induction s) (auto split: list.splits)

lemma split_ws_from_Nil_iff:
  "split_ws_from cur s = [] \<longleftrightarrow> cur = [] \<and> (\<forall>ch\<in>set s. isspace ch)"
  by (induction cur s rule: split_ws_from.induct) auto

lemma split_ws_from_nonempty: "t \<in> set (split_ws_from cur s) \<Longrightarrow> t \<noteq> []"
  by (induction cur s rule: split_ws_from.induct) (auto split: if_splits)

lemma filter_split_ws: "filter (\<lambda>i. i \<noteq> []) (split_ws s) = split_ws s"
  by (simp add: split_ws_def filter_id_conv split_ws_from_nonempty)

text \<open>The first field of a split ends at the first separator; the rest is split again.\<close>

lemma split_on_char:
  "split_on sep s =
     takeWhile (\<lambda>ch. ch \<noteq> sep) s #
     (if sep \<in> set s then split_on sep (tl (dropWhile (\<lambda>ch. ch \<noteq> sep) s)) else [])"
proof (induction s)
  case Nil
  show ?case by simp
next
  case (Cons a s)
  show ?case
  proof (cases "a = sep")
    case True
    then show ?thesis by simp
  next
    case False
    then show ?thesis by (subst split_on.simps) (simp add: Cons.IH)
  qed
qed

lemma split_on_two:
  assumes "sep \<in> set s"
  shows "\<exists>fs. split_on sep s =
           takeWhile (\<lambda>ch. ch \<noteq> sep) s #
           takeWhile (\<lambda>ch. ch \<noteq> sep) (tl (dropWhile (\<lambda>ch. ch \<noteq> sep) s)) # fs"
proof -
  let ?r = "tl (dropWhile (\<lambda>ch. ch \<noteq> sep) s)"
  have "split_on sep s = takeWhile (\<lambda>ch. ch \<noteq> sep) s # split_on sep ?r"
    using assms by (subst split_on_char) simp
  moreover have "\<exists>fs. split_on sep ?r = takeWhile (\<lambda>ch. ch \<noteq> sep) ?r # fs"
    by (subst split_on_char) simp
  ultimately show ?thesis by auto
qed

lemma startswith_colon:
  assumes "startswith t ''multiconfig:'' \<or> startswith t ''mc:''"
  shows "CHR '':'' \<in> set t"
proof -
  from assms obtain p where p: "take (length p) t = p" "CHR '':'' \<in> set p"
    unfolding startswith_def by fastforce
  have "set (take (length p) t) \<subseteq> set t" by (rule set_take_subset)
  with p show ?thesis by auto
qed

text \<open>
  On a list of strings the loop of \<^verbatim>\<open>get_multiconfig\<close> never raises: a token with one
  of the two prefixes contains a colon, so its split has a second field.
\<close>

lemma collect_multiconfigs_strings:
  "collect_multiconfigs added (map VStr ts) =
     Inr (added @
          map (\<lambda>t. takeWhile (\<lambda>ch. ch \<noteq> CHR '':'') (tl (dropWhile (\<lambda>ch. ch \<noteq> CHR '':'') t)))
            (filter (\<lambda>t. startswith t ''multiconfig:'' \<or> startswith t ''mc:'') ts))"
proof (induction ts arbitrary: added)
  case Nil
  show ?case by simp
next
  case (Cons t ts)
  show ?case
  proof (cases "startswith t ''multiconfig:'' \<or> startswith t ''mc:''")
    case True
    then have "CHR '':'' \<in> set t" by (rule startswith_colon)
    from split_on_two [OF this] obtain fs where
      "split_on CHR '':'' t = takeWhile (\<lambda>ch. ch \<noteq> CHR '':'') t #
         takeWhile (\<lambda>ch. ch \<noteq> CHR '':'') (tl (dropWhile (\<lambda>ch. ch \<noteq> CHR '':'') t)) # fs"
      by blast
    with True show ?thesis by (simp add: Cons.IH)
  next
    case False
    then show ?thesis by (simp add: Cons.IH)
  qed
qed

lemma distinct_singleton: "distinct xs \<Longrightarrow> set xs = {a} \<Longrightarrow> xs = [a]"
  by (cases xs) (auto simp: insert_eq_iff dest: subset_singletonD)

section \<open>Target selection\<close>

text \<open>
  C3.  \<^verbatim>\<open>get_bitbake_targets\<close> applies this precedence: an override target that is true in
  Python's sense (a non-empty list or string) is returned; otherwise, if KAS_TARGET
  holds at least one character that is no whitespace, the list of its
  whitespace-separated tokens is returned; otherwise a string under the configuration's
  \<^verbatim>\<open>target\<close> key is returned as a one-element list and any other value under that key as
  it is; without the key the result is the one-element list \<^verbatim>\<open>["core-image-minimal"]\<close>.
\<close>

theorem get_bitbake_targets_precedence:
  "(truthy (u_override_target c) \<longrightarrow> get_bitbake_targets w c = u_override_target c) \<and>
   (\<not> truthy (u_override_target c) \<and> environ w ''KAS_TARGET'' = Some s \<and>
      (\<exists>ch\<in>set s. \<not> isspace ch)
      \<longrightarrow> get_bitbake_targets w c = VList (map VStr (split_ws s)) \<and> split_ws s \<noteq> []) \<and>
   (\<not> truthy (u_override_target c) \<and>
      (environ w ''KAS_TARGET'' = None \<or>
       (environ w ''KAS_TARGET'' = Some s \<and> (\<forall>ch\<in>set s. isspace ch)))
      \<longrightarrow> get_bitbake_targets w c =
            (case map_of (u_config c) ''target'' of
               None \<Rightarrow> VList [VStr ''core-image-minimal'']
             | Some (VStr t) \<Rightarrow> VList [VStr t]
             | Some v \<Rightarrow> v))"
proof (intro conjI impI)
  assume "truthy (u_override_target c)"
  then show "get_bitbake_targets w c = u_override_target c"
    by (simp add: get_bitbake_targets_def)
next
  assume a: "\<not> truthy (u_override_target c) \<and> environ w ''KAS_TARGET'' = Some s \<and>
      (\<exists>ch\<in>set s. \<not> isspace ch)"
  then have ne: "split_ws s \<noteq> []"
    by (simp add: split_ws_def split_ws_from_Nil_iff)
  with a show "get_bitbake_targets w c = VList (map VStr (split_ws s))"
    by (simp add: get_bitbake_targets_def filter_split_ws)
  from ne show "split_ws s \<noteq> []" .
next
  assume a: "\<not> truthy (u_override_target c) \<and>
      (environ w ''KAS_TARGET'' = None \<or>
       (environ w ''KAS_TARGET'' = Some s \<and> (\<forall>ch\<in>set s. isspace ch)))"
  then have "split_ws (case environ w ''KAS_TARGET'' of Some s \<Rightarrow> s | None \<Rightarrow> []) = []"
    by (auto simp: split_ws_def split_ws_from_Nil_iff)
  with a show "get_bitbake_targets w c =
            (case map_of (u_config c) ''target'' of
               None \<Rightarrow> VList [VStr ''core-image-minimal'']
             | Some (VStr t) \<Rightarrow> VList [VStr t]
             | Some v \<Rightarrow> v)"
    by (simp add: get_bitbake_targets_def dict_get_def split: option.splits pyval.splits)
qed

theorem get_bitbake_targets_precedence_witness:
  "get_bitbake_targets (sample_externals [''KAS_TARGET'' \<mapsto> ''env-image''])
     (sample_config (VList [VStr ''cli-image'']) [(''target'', VStr ''cfg-image'')])
     = VList [VStr ''cli-image''] \<and>
   get_bitbake_targets (sample_externals [''KAS_TARGET'' \<mapsto> ''a  b''])
     (sample_config VNone [(''target'', VStr ''cfg-image'')])
     = VList [VStr ''a'', VStr ''b''] \<and>
   get_bitbake_targets (sample_externals Map.empty)
     (sample_config VNone [(''target'', VStr ''cfg-image'')])
     = VList [VStr ''cfg-image'']"
  using
    get_bitbake_targets_precedence [of
      "sample_config (VList [VStr ''cli-image'']) [(''target'', VStr ''cfg-image'')]"
      "sample_externals [''KAS_TARGET'' \<mapsto> ''env-image'']" "''env-image''"]
    get_bitbake_targets_precedence [of
      "sample_config VNone [(''target'', VStr ''cfg-image'')]"
      "sample_externals [''KAS_TARGET'' \<mapsto> ''a  b'']" "''a  b''"]
    get_bitbake_targets_precedence [of
      "sample_config VNone [(''target'', VStr ''cfg-image'')]"
      "sample_externals Map.empty" "[]"]
  by (simp add: sample_externals_def sample_config_def isspace_def split_ws_def)

text \<open>
  The claim as it is written, for every override target that was supplied (that is not
  \<^verbatim>\<open>None\<close>), fails for the empty list: it is supplied and it is not returned.
\<close>

theorem empty_override_target_counterexample:
  "u_override_target (sample_config (VList []) []) = VList [] \<and>
   u_override_target (sample_config (VList []) []) \<noteq> VNone \<and>
   get_bitbake_targets (sample_externals Map.empty) (sample_config (VList []) [])
     = VList [VStr ''core-image-minimal''] \<and>
   get_bitbake_targets (sample_externals Map.empty) (sample_config (VList []) [])
     \<noteq> u_override_target (sample_config (VList []) [])"
  by (simp add: get_bitbake_targets_def sample_config_def sample_externals_def split_ws_def
      dict_get_def)

text \<open>
  C10.  Without an override target, a KAS_TARGET that is set but empty or all
  whitespace is ignored: \<^verbatim>\<open>get_bitbake_targets\<close> returns what the configuration's
  \<^verbatim>\<open>target\<close> entry (or the default) gives, which is what it returns with KAS_TARGET
  unset.
\<close>

theorem blank_KAS_TARGET_ignored:
  assumes "\<not> truthy (u_override_target c)"
      and "environ w ''KAS_TARGET'' = Some s"
      and "\<forall>ch\<in>set s. isspace ch"
  shows "get_bitbake_targets w c =
           (case map_of (u_config c) ''target'' of
              None \<Rightarrow> VList [VStr ''core-image-minimal'']
            | Some (VStr t) \<Rightarrow> VList [VStr t]
            | Some v \<Rightarrow> v) \<and>
         get_bitbake_targets w c =
           get_bitbake_targets (w\<lparr>environ := (environ w)(''KAS_TARGET'' := None)\<rparr>) c"
proof -
  have "split_ws s = []"
    using assms(3) by (simp add: split_ws_def split_ws_from_Nil_iff)
  moreover have "split_ws [] = []" by (simp add: split_ws_def)
  ultimately show ?thesis
    using assms(1,2)
    by (simp add: get_bitbake_targets_def dict_get_def split: option.splits pyval.splits)
qed

theorem blank_KAS_TARGET_ignored_witness:
  "get_bitbake_targets (sample_externals [''KAS_TARGET'' \<mapsto> ''  ''])
     (sample_config VNone [(''target'', VStr ''my-image'')]) = VList [VStr ''my-image''] \<and>
   get_bitbake_targets (sample_externals [''KAS_TARGET'' \<mapsto> []])
     (sample_config VNone []) = VList [VStr ''core-image-minimal'']"
  using
    blank_KAS_TARGET_ignored [of "sample_config VNone [(''target'', VStr ''my-image'')]"
      "sample_externals [''KAS_TARGET'' \<mapsto> ''  '']" "''  ''"]
    blank_KAS_TARGET_ignored [of "sample_config VNone []"
      "sample_externals [''KAS_TARGET'' \<mapsto> []]" "[]"]
  by (simp add: sample_externals_def sample_config_def isspace_def)

section \<open>Multiconfig\<close>

text \<open>
  Joining with a separator puts the separator in front of every string but the first.
\<close>

lemma join_with_concat:
  "join_with sep xs = (case xs of [] \<Rightarrow> [] | x # ys \<Rightarrow> x @ concat (map (\<lambda>y. sep @ y) ys))"
  by (induction sep xs rule: join_with.induct) simp_all

lemma distinct_pair:
  assumes "distinct xs" and "set xs = {a, b}" and "a \<noteq> b"
  shows "xs = [a, b] \<or> xs = [b, a]"
proof -
  have "length xs = card (set xs)" using assms(1) by (simp add: distinct_card)
  also have "\<dots> = 2" using assms(2,3) by simp
  finally have "length xs = Suc (Suc 0)" by simp
  then obtain x y where xy: "xs = [x, y]"
    by (auto simp: length_Suc_conv)
  with assms(2) have "{x, y} = {a, b}" by simp
  then have "(x = a \<and> y = b) \<or> (x = b \<and> y = a)"
    by (simp add: doubleton_eq_iff)
  with xy show ?thesis by auto
qed

lemma image_filter_set: "{f t | t. t \<in> set ts \<and> p t} = set (map f (filter p ts))"
  by auto

text \<open>
  C7.  When the iteration of a set visits each of its elements once, and the resolved
  targets are a list of strings, \<^verbatim>\<open>get_multiconfig\<close> returns the names joined by single
  spaces (the first name, then a space and a name for every further name), where the
  names are, without duplicates, the second colon-delimited fields of exactly the
  targets starting with \<^verbatim>\<open>multiconfig:\<close> or \<^verbatim>\<open>mc:\<close>.  In particular, without override
  target and KAS_TARGET, the configured targets
  \<^verbatim>\<open>["core-image-minimal", "mc:qemu:core-image-sato"]\<close> give \<^verbatim>\<open>qemu\<close>; and the targets
  \<^verbatim>\<open>["mc:qemu:core-image-sato", "core-image-minimal", "multiconfig:arm:core-image-minimal"]\<close>
  give \<^verbatim>\<open>qemu arm\<close> or \<^verbatim>\<open>arm qemu\<close>, as the set is iterated.
\<close>

theorem get_multiconfig_derivation:
  assumes ok: "\<forall>xs. distinct (set_iter w xs) \<and> set (set_iter w xs) = set xs"
  shows
    "(get_bitbake_targets w c = VList (map VStr ts) \<longrightarrow>
       (\<exists>names. get_multiconfig w c = Inr (join_with '' '' names) \<and>
          get_multiconfig w c =
            Inr (case names of [] \<Rightarrow> [] | n # ns \<Rightarrow> n @ concat (map (\<lambda>m. '' '' @ m) ns)) \<and>
          distinct names \<and>
          set names =
            {takeWhile (\<lambda>ch. ch \<noteq> CHR '':'') (tl (dropWhile (\<lambda>ch. ch \<noteq> CHR '':'') t)) | t.
               t \<in> set ts \<and> (startswith t ''multiconfig:'' \<or> startswith t ''mc:'')})) \<and>
     (u_override_target c = VNone \<and> environ w ''KAS_TARGET'' = None \<and>
      map_of (u_config c) ''target'' =
        Some (VList [VStr ''core-image-minimal'', VStr ''mc:qemu:core-image-sato''])
      \<longrightarrow> get_multiconfig w c = Inr ''qemu'') \<and>
     (u_override_target c = VNone \<and> environ w ''KAS_TARGET'' = None \<and>
      map_of (u_config c) ''target'' =
        Some (VList [VStr ''mc:qemu:core-image-sato'', VStr ''core-image-minimal'',
                     VStr ''multiconfig:arm:core-image-minimal''])
      \<longrightarrow> get_multiconfig w c = Inr ''qemu arm'' \<or> get_multiconfig w c = Inr ''arm qemu'')"
proof (intro conjI impI)
  assume t: "get_bitbake_targets w c = VList (map VStr ts)"
  let ?f = "\<lambda>t. takeWhile (\<lambda>ch. ch \<noteq> CHR '':'') (tl (dropWhile (\<lambda>ch. ch \<noteq> CHR '':'') t))"
  let ?added = "map ?f (filter (\<lambda>t. startswith t ''multiconfig:'' \<or> startswith t ''mc:'') ts)"
  have r: "get_multiconfig w c = Inr (join_with '' '' (set_iter w ?added))"
    by (simp add: get_multiconfig_def t iter_values_def collect_multiconfigs_strings)
  have r': "get_multiconfig w c =
      Inr (case set_iter w ?added of [] \<Rightarrow> [] | n # ns \<Rightarrow> n @ concat (map (\<lambda>m. '' '' @ m) ns))"
    unfolding r by (simp only: join_with_concat)
  have d: "distinct (set_iter w ?added)" using ok by blast
  have s: "set (set_iter w ?added) =
      {?f t | t. t \<in> set ts \<and> (startswith t ''multiconfig:'' \<or> startswith t ''mc:'')}"
    using ok by auto
  show "\<exists>names. get_multiconfig w c = Inr (join_with '' '' names) \<and>
          get_multiconfig w c =
            Inr (case names of [] \<Rightarrow> [] | n # ns \<Rightarrow> n @ concat (map (\<lambda>m. '' '' @ m) ns)) \<and>
          distinct names \<and>
          set names =
            {?f t | t. t \<in> set ts \<and> (startswith t ''multiconfig:'' \<or> startswith t ''mc:'')}"
    by (rule exI [of _ "set_iter w ?added"]) (intro conjI r r' d s)
next
  assume a: "u_override_target c = VNone \<and> environ w ''KAS_TARGET'' = None \<and>
      map_of (u_config c) ''target'' =
        Some (VList [VStr ''core-image-minimal'', VStr ''mc:qemu:core-image-sato''])"
  then have "get_bitbake_targets w c =
      VList [VStr ''core-image-minimal'', VStr ''mc:qemu:core-image-sato'']"
    by (simp add: get_bitbake_targets_def split_ws_def dict_get_def)
  then have "get_multiconfig w c = Inr (join_with '' '' (set_iter w [''qemu'']))"
    by (simp add: get_multiconfig_def iter_values_def startswith_def)
  moreover have "set_iter w [''qemu''] = [''qemu'']"
    using ok by (intro distinct_singleton) auto
  ultimately show "get_multiconfig w c = Inr ''qemu''" by simp
next
  assume a: "u_override_target c = VNone \<and> environ w ''KAS_TARGET'' = None \<and>
      map_of (u_config c) ''target'' =
        Some (VList [VStr ''mc:qemu:core-image-sato'', VStr ''core-image-minimal'',
                     VStr ''multiconfig:arm:core-image-minimal''])"
  then have "get_bitbake_targets w c =
      VList [VStr ''mc:qemu:core-image-sato'', VStr ''core-image-minimal'',
             VStr ''multiconfig:arm:core-image-minimal'']"
    by (simp add: get_bitbake_targets_def split_ws_def dict_get_def)
  then have r: "get_multiconfig w c = Inr (join_with '' '' (set_iter w [''qemu'', ''arm'']))"
    by (simp add: get_multiconfig_def iter_values_def startswith_def)
  have "distinct (set_iter w [''qemu'', ''arm''])"
    and "set (set_iter w [''qemu'', ''arm'']) = {''qemu'', ''arm''}"
    using ok by simp_all
  then have "set_iter w [''qemu'', ''arm''] = [''qemu'', ''arm''] \<or>
             set_iter w [''qemu'', ''arm''] = [''arm'', ''qemu'']"
    by (rule distinct_pair) simp
  then show "get_multiconfig w c = Inr ''qemu arm'' \<or> get_multiconfig w c = Inr ''arm qemu''"
    unfolding r by (elim disjE) simp_all
qed

theorem get_multiconfig_derivation_witness:
  "get_multiconfig (sample_externals Map.empty)
     (sample_config VNone
        [(''target'', VList [VStr ''core-image-minimal'', VStr ''mc:qemu:core-image-sato''])])
     = Inr ''qemu'' \<and>
   get_multiconfig (sample_externals Map.empty)
     (sample_config VNone
        [(''target'', VList [VStr ''mc:qemu:core-image-sato'', VStr ''core-image-minimal'',
                             VStr ''multiconfig:arm:core-image-minimal''])])
     = Inr ''qemu arm'' \<and>
   (\<exists>names.
      get_multiconfig (sample_externals Map.empty)
        (sample_config
           (VList [VStr ''mc:qemu:a'', VStr ''c'', VStr ''multiconfig:arm:b'', VStr ''mc:x86:d'']) [])
        = Inr (case names of [] \<Rightarrow> [] | n # ns \<Rightarrow> n @ concat (map (\<lambda>m. '' '' @ m) ns)) \<and>
      distinct names \<and> set names = {''qemu'', ''arm'', ''x86''}) \<and>
   get_multiconfig (sample_externals Map.empty)
     (sample_config
        (VList [VStr ''mc:qemu:a'', VStr ''c'', VStr ''multiconfig:arm:b'', VStr ''mc:x86:d'']) [])
     = Inr ''qemu arm x86''"
proof -
  let ?w = "sample_externals Map.empty :: (string list, string) externals"
  let ?c1 = "sample_config VNone
        [(''target'', VList [VStr ''core-image-minimal'', VStr ''mc:qemu:core-image-sato''])]"
  let ?c3 = "sample_config VNone
        [(''target'', VList [VStr ''mc:qemu:core-image-sato'', VStr ''core-image-minimal'',
                             VStr ''multiconfig:arm:core-image-minimal''])]"
  let ?ts = "[''mc:qemu:a'', ''c'', ''multiconfig:arm:b'', ''mc:x86:d'']"
  let ?c2 = "sample_config (VList (map VStr ?ts)) []"
  let ?f = "\<lambda>t. takeWhile (\<lambda>ch. ch \<noteq> CHR '':'') (tl (dropWhile (\<lambda>ch. ch \<noteq> CHR '':'') t))"
  let ?p = "\<lambda>t. startswith t ''multiconfig:'' \<or> startswith t ''mc:''"
  have ok: "\<forall>xs. distinct (set_iter ?w xs) \<and> set (set_iter ?w xs) = set xs"
    by (simp add: sample_externals_def)
  have t: "get_bitbake_targets ?w ?c2 = VList (map VStr ?ts)"
    by (simp add: get_bitbake_targets_def sample_config_def)
  have "set (map ?f (filter ?p ?ts)) = {''qemu'', ''arm'', ''x86''}"
    by (simp add: startswith_def)
  then have s: "{?f t | t. t \<in> set ?ts \<and> ?p t} = {''qemu'', ''arm'', ''x86''}"
    by (simp only: image_filter_set)
  have c1: "u_override_target ?c1 = VNone \<and> environ ?w ''KAS_TARGET'' = None \<and>
      map_of (u_config ?c1) ''target'' =
        Some (VList [VStr ''core-image-minimal'', VStr ''mc:qemu:core-image-sato''])"
    by (simp add: sample_externals_def sample_config_def)
  have c3: "u_override_target ?c3 = VNone \<and> environ ?w ''KAS_TARGET'' = None \<and>
      map_of (u_config ?c3) ''target'' =
        Some (VList [VStr ''mc:qemu:core-image-sato'', VStr ''core-image-minimal'',
                     VStr ''multiconfig:arm:core-image-minimal''])"
    by (simp add: sample_externals_def sample_config_def)
  have one: "get_multiconfig ?w ?c1 = Inr ''qemu''"
    using get_multiconfig_derivation [OF ok, of ?c1] c1 by blast
  have "get_multiconfig ?w ?c3 = Inr ''qemu arm'' \<or> get_multiconfig ?w ?c3 = Inr ''arm qemu''"
    using get_multiconfig_derivation [OF ok, of ?c3] c3 by blast
  moreover have "get_multiconfig ?w ?c3 \<noteq> Inr ''arm qemu''"
    by (simp add: get_multiconfig_def get_bitbake_targets_def iter_values_def startswith_def
        split_ws_def dict_get_def sample_externals_def sample_config_def)
  ultimately have two: "get_multiconfig ?w ?c3 = Inr ''qemu arm''" by blast
  have three: "\<exists>names. get_multiconfig ?w ?c2 =
        Inr (case names of [] \<Rightarrow> [] | n # ns \<Rightarrow> n @ concat (map (\<lambda>m. '' '' @ m) ns)) \<and>
      distinct names \<and> set names = {''qemu'', ''arm'', ''x86''}"
    using get_multiconfig_derivation [OF ok, of ?c2 ?ts] t unfolding s by blast
  have four: "get_multiconfig ?w ?c2 = Inr ''qemu arm x86''"
    by (simp add: get_multiconfig_def get_bitbake_targets_def iter_values_def startswith_def
        sample_externals_def sample_config_def)
  from one two three four show ?thesis by (simp only: list.map simp_thms)
qed

section \<open>Configuration headers in key order\<close>












section \<open>Environment variables\<close>

lemma get_environment_mapping:
  assumes "map_of (u_config c) ''env'' = Some (VDict d)"
  shows "get_environment w c =
           traverse (\<lambda>var. case subscript (VDict d) var of Inl e \<Rightarrow> Inl e
                         | Inr dflt \<Rightarrow> Inr (var, environ_get w var dflt)) (map fst d)"
  using assms unfolding get_environment_def dict_get_def Let_def by simp

lemma map_of_graph: "x \<in> set ks \<Longrightarrow> map_of (map (\<lambda>k. (k, h k)) ks) x = Some (h x)"
  by (induction ks) auto

lemma key_has_value: "x \<in> set (map fst d) \<Longrightarrow> \<exists>v. map_of d x = Some v"
  by (cases "map_of d x") (auto simp: map_of_eq_None_iff)

lemma traverse_env:
  assumes "set ks \<subseteq> set (map fst d)"
  shows "traverse (\<lambda>var. case subscript (VDict d) var of Inl e \<Rightarrow> Inl e
                         | Inr dflt \<Rightarrow> Inr (var, environ_get w var dflt)) ks
        = Inr (map (\<lambda>var. (var, environ_get w var (the (map_of d var)))) ks)"
  using assms
proof (induction ks)
  case Nil
  show ?case by simp
next
  case (Cons k ks)
  then have "k \<in> set (map fst d)" by simp
  from key_has_value [OF this] obtain v where v: "map_of d k = Some v" ..
  have "subscript (VDict d) k = Inr v"
    by (simp add: subscript_def v)
  moreover have "set ks \<subseteq> set (map fst d)" using Cons.prems by simp
  ultimately show ?case using Cons.IH v by simp
qed

text \<open>
  C9.  When the \<^verbatim>\<open>env\<close> entry of the configuration is a mapping, \<^verbatim>\<open>get_environment\<close>
  returns a mapping with exactly the declared variable names as keys (in the order of
  the declaration), and each variable has the value of the process environment when it
  is set there and the declared default otherwise.  Without an \<^verbatim>\<open>env\<close> entry the result
  is empty.
\<close>

theorem get_environment_overrides:
  "(map_of (u_config c) ''env'' = Some (VDict d) \<longrightarrow>
      (\<exists>r. get_environment w c = Inr r \<and> map fst r = map fst d \<and>
         (\<forall>var\<in>set (map fst d).
            map_of r var =
              (case environ w var of Some s \<Rightarrow> Some (VStr s) | None \<Rightarrow> map_of d var)))) \<and>
   (map_of (u_config c) ''env'' = None \<longrightarrow> get_environment w c = Inr [])"
proof (intro conjI impI)
  assume e: "map_of (u_config c) ''env'' = Some (VDict d)"
  let ?g = "\<lambda>var. (var, environ_get w var (the (map_of d var)))"
  have r: "get_environment w c = Inr (map ?g (map fst d))"
    by (simp only: get_environment_mapping [OF e] traverse_env [OF subset_refl])
  have k: "map fst (map ?g (map fst d)) = map fst d" by (simp add: comp_def)
  have v: "\<forall>var\<in>set (map fst d). map_of (map ?g (map fst d)) var =
              (case environ w var of Some s \<Rightarrow> Some (VStr s) | None \<Rightarrow> map_of d var)"
  proof
    fix var assume a: "var \<in> set (map fst d)"
    from key_has_value [OF a] obtain v where "map_of d var = Some v" ..
    moreover have "map_of (map ?g (map fst d)) var = Some (environ_get w var (the (map_of d var)))"
      using a by (rule map_of_graph)
    ultimately show "map_of (map ?g (map fst d)) var =
              (case environ w var of Some s \<Rightarrow> Some (VStr s) | None \<Rightarrow> map_of d var)"
      by (simp add: environ_get_def split: option.splits)
  qed
  show "\<exists>r. get_environment w c = Inr r \<and> map fst r = map fst d \<and>
         (\<forall>var\<in>set (map fst d).
            map_of r var =
              (case environ w var of Some s \<Rightarrow> Some (VStr s) | None \<Rightarrow> map_of d var))"
    by (rule exI [of _ "map ?g (map fst d)"]) (intro conjI r k v)
next
  assume "map_of (u_config c) ''env'' = None"
  then show "get_environment w c = Inr []"
    by (simp add: get_environment_def dict_get_def)
qed

theorem get_environment_overrides_witness:
  "get_environment (sample_externals [''HTTP_PROXY'' \<mapsto> ''http://proxy''])
     (sample_config VNone
        [(''env'', VDict [(''SSTATE_DIR'', VStr ''/sstate''), (''HTTP_PROXY'', VStr [])])])
   = Inr [(''SSTATE_DIR'', VStr ''/sstate''), (''HTTP_PROXY'', VStr ''http://proxy'')] \<and>
   get_environment (sample_externals [''HTTP_PROXY'' \<mapsto> ''http://proxy''])
     (sample_config VNone []) = Inr []"
proof -
  let ?w = "sample_externals [''HTTP_PROXY'' \<mapsto> ''http://proxy''] :: (string list, string) externals"
  let ?d = "[(''SSTATE_DIR'', VStr ''/sstate''), (''HTTP_PROXY'', VStr [])]"
  let ?c = "sample_config VNone [(''env'', VDict ?d)]"
  have e: "map_of (u_config ?c) ''env'' = Some (VDict ?d)"
    by (simp add: sample_config_def)
  from get_environment_overrides [of ?c ?d ?w] e
  have "\<exists>r. get_environment ?w ?c = Inr r \<and> map fst r = map fst ?d \<and>
    (\<forall>var\<in>set (map fst ?d). map_of r var =
       (case environ ?w var of Some s \<Rightarrow> Some (VStr s) | None \<Rightarrow> map_of ?d var))"
    by (rule conjunct1 [THEN mp])
  then obtain r where r1: "get_environment ?w ?c = Inr r" and r2: "map fst r = map fst ?d"
    and r3: "\<forall>var\<in>set (map fst ?d). map_of r var =
       (case environ ?w var of Some s \<Rightarrow> Some (VStr s) | None \<Rightarrow> map_of ?d var)"
    by (elim exE conjE)
  from r2 obtain v1 v2 where r4: "r = [(''SSTATE_DIR'', v1), (''HTTP_PROXY'', v2)]"
    by (auto simp: map_eq_Cons_conv)
  from r3 have "v1 = VStr ''/sstate''" "v2 = VStr ''http://proxy''"
    by (simp_all add: r4 sample_externals_def)
  with r1 r4 have "get_environment ?w ?c = Inr [(''SSTATE_DIR'', VStr ''/sstate''), (''HTTP_PROXY'', VStr ''http://proxy'')]"
    by simp
  moreover have "get_environment ?w (sample_config VNone []) = Inr []"
    using get_environment_overrides [of "sample_config VNone []" "[]" ?w]
    by (simp add: sample_config_def)
  ultimately show ?thesis by (simp only: simp_thms)
qed

section \<open>Construction and version-control roots\<close>

lemma remdups_two_iff: "1 < length (remdups xs) \<longleftrightarrow> (\<exists>a\<in>set xs. \<exists>b\<in>set xs. a \<noteq> b)"
proof -
  have "card (set xs) \<le> Suc 0 \<longleftrightarrow> (\<forall>a\<in>set xs. \<forall>b\<in>set xs. a = b)"
    by (rule card_le_Suc0_iff_eq) simp
  then show ?thesis
    by (simp add: length_remdups_card_conv not_le [symmetric])
qed

lemma get_repo_dict_empty_config: "u_config c = [] \<Longrightarrow> get_repo_dict w c = Inr []"
  by (simp add: get_repo_dict_def get_repos_config_def dict_get_def)

lemma differing_roots_iff:
  fixes root :: "'a \<Rightarrow> 'b option"
  shows "(\<exists>a\<in>set (map root fns). \<exists>b\<in>set (map root fns). a \<noteq> b) \<longleftrightarrow>
     (\<exists>f\<in>set fns. \<exists>g\<in>set fns. \<exists>r1 r2. root f = Some r1 \<and> root g = Some r2 \<and> r1 \<noteq> r2) \<or>
     (\<exists>f\<in>set fns. \<exists>g\<in>set fns. root f \<noteq> None \<and> root g = None)"
  (is "?L \<longleftrightarrow> ?M \<or> ?X")
proof
  assume ?L
  then obtain f g where fg: "f \<in> set fns" "g \<in> set fns" "root f \<noteq> root g" by auto
  show "?M \<or> ?X"
  proof (cases "root f")
    case None
    with fg have "root g \<noteq> None" by simp
    with None fg(1,2) have ?X by auto
    then show ?thesis ..
  next
    case (Some r1)
    show ?thesis
    proof (cases "root g")
      case None
      with Some fg(1,2) have ?X by auto
      then show ?thesis ..
    next
      case (Some r2)
      with \<open>root f = Some r1\<close> fg have ?M by auto
      then show ?thesis ..
    qed
  qed
next
  assume "?M \<or> ?X"
  then obtain f g where "f \<in> set fns" "g \<in> set fns" "root f \<noteq> root g"
    by (elim disjE bexE exE conjE) auto
  then have "root f \<in> set (map root fns)" "root g \<in> set (map root fns)" by simp_all
  with \<open>root f \<noteq> root g\<close> show ?L by (intro bexI [of _ "root f"] bexI [of _ "root g"])
qed

lemma Config_init_cases:
  fixes w :: "('h, 'r) externals" and filename :: string
  defines "fns \<equiv> map (abspath w) (split_on CHR '':'' filename)"
  shows "Config_init w filename target task update =
     (if 1 < length (remdups (map (\<lambda>f. get_root_path w (dirname w f) False) fns))
      then Inl (IncludeException
                  (''All concatenated config files must '' @
                   ''belong to the same repository or all '' @
                   ''must be outside of versioning control''))
      else Inr \<lparr> u_override_target = target, u_override_task = task, u_config = [],
                 filenames = fns,
                 handler = IncludeHandler w fns (get_root_path w (dirname w (hd fns)) True) (\<not> update),
                 repo_dict = [] \<rparr>)"
proof (cases "split_on CHR '':'' filename")
  case Nil
  then show ?thesis by (simp add: split_on_ne)
next
  case (Cons first rest)
  then show ?thesis
    unfolding Config_init_def fns_def Let_def
    by (simp add: get_repo_dict_empty_config)
qed

lemma uniform_roots_no_difference:
  fixes root :: "'a \<Rightarrow> 'b option"
  assumes "(\<exists>r. \<forall>f\<in>set fns. root f = Some r) \<or> (\<forall>f\<in>set fns. root f = None)"
  shows "\<not> (\<exists>a\<in>set (map root fns). \<exists>b\<in>set (map root fns). a \<noteq> b)"
proof -
  from assms obtain v where v: "\<forall>f\<in>set fns. root f = v"
    by (elim disjE exE) (rule that, assumption)+
  then have "\<forall>a\<in>set (map root fns). a = v" by simp
  then show ?thesis by simp
qed

text \<open>
  C1.  Constructing a \<^verbatim>\<open>Config\<close> from a colon-separated list of paths raises the
  configuration exception exactly when two of the files resolve to different
  version-control roots, or one resolves inside a root and another outside any root.
  When all files share one root, or all are outside any root, the constructor returns
  the object (it raises nothing).  The result is either the exception or the object,
  never both.
\<close>

theorem Config_init_repository_roots:
  fixes w :: "('h, 'r) externals" and filename :: string
  defines "fns \<equiv> map (abspath w) (split_on CHR '':'' filename)"
  defines "root \<equiv> \<lambda>configfile. get_root_path w (dirname w configfile) False"
  shows
    "((\<exists>msg. Config_init w filename target task update = Inl (IncludeException msg)) \<longleftrightarrow>
        (\<exists>f\<in>set fns. \<exists>g\<in>set fns. \<exists>r1 r2. root f = Some r1 \<and> root g = Some r2 \<and> r1 \<noteq> r2) \<or>
        (\<exists>f\<in>set fns. \<exists>g\<in>set fns. root f \<noteq> None \<and> root g = None)) \<and>
     ((\<exists>r. \<forall>f\<in>set fns. root f = Some r) \<or> (\<forall>f\<in>set fns. root f = None) \<longrightarrow>
        (\<exists>c. Config_init w filename target task update = Inr c \<and>
             filenames c = fns \<and> u_override_target c = target \<and> u_override_task c = task))"
proof -
  define bad where "bad \<longleftrightarrow> 1 < length (remdups (map root fns))"
  define obj :: "('h, 'r) Config" where "obj = \<lparr> u_override_target = target, u_override_task = task, u_config = [],
                 filenames = fns,
                 handler = IncludeHandler w fns (get_root_path w (dirname w (hd fns)) True) (\<not> update),
                 repo_dict = [] \<rparr>"
  define msg where "msg = ''All concatenated config files must '' @
                   ''belong to the same repository or all '' @
                   ''must be outside of versioning control''"
  have init: "Config_init w filename target task update =
     (if bad then Inl (IncludeException msg) else Inr obj)"
    unfolding bad_def obj_def msg_def fns_def root_def by (rule Config_init_cases)
  have bad_iff: "bad \<longleftrightarrow>
        (\<exists>f\<in>set fns. \<exists>g\<in>set fns. \<exists>r1 r2. root f = Some r1 \<and> root g = Some r2 \<and> r1 \<noteq> r2) \<or>
        (\<exists>f\<in>set fns. \<exists>g\<in>set fns. root f \<noteq> None \<and> root g = None)"
    unfolding bad_def by (simp only: remdups_two_iff differing_roots_iff)
  have first: "(\<exists>msg. Config_init w filename target task update = Inl (IncludeException msg)) \<longleftrightarrow> bad"
    unfolding init by (cases bad) simp_all
  have second: "(\<exists>r. \<forall>f\<in>set fns. root f = Some r) \<or> (\<forall>f\<in>set fns. root f = None) \<longrightarrow>
        (\<exists>c. Config_init w filename target task update = Inr c \<and>
             filenames c = fns \<and> u_override_target c = target \<and> u_override_task c = task)"
  proof
    assume "(\<exists>r. \<forall>f\<in>set fns. root f = Some r) \<or> (\<forall>f\<in>set fns. root f = None)"
    then have "\<not> bad"
      unfolding bad_def remdups_two_iff by (rule uniform_roots_no_difference)
    then have "Config_init w filename target task update = Inr obj"
      by (simp add: init)
    moreover have "filenames obj = fns \<and> u_override_target obj = target \<and> u_override_task obj = task"
      by (simp add: obj_def)
    ultimately show "\<exists>c. Config_init w filename target task update = Inr c \<and>
             filenames c = fns \<and> u_override_target c = target \<and> u_override_task c = task"
      by (intro exI [of _ obj] conjI) simp_all
  qed
  show ?thesis
    unfolding first bad_iff [symmetric] using second by simp
qed

theorem Config_init_repository_roots_witness:
  "(\<exists>msg. Config_init ((sample_externals Map.empty)\<lparr>get_root_path := sample_roots\<rparr>)
            ''/a/k.yml:/b/k.yml'' VNone VNone False = Inl (IncludeException msg)) \<and>
   (\<exists>msg. Config_init ((sample_externals Map.empty)\<lparr>get_root_path := sample_roots\<rparr>)
            ''/a/k.yml:/t/k.yml'' VNone VNone False = Inl (IncludeException msg)) \<and>
   (\<exists>c. Config_init ((sample_externals Map.empty)\<lparr>get_root_path := sample_roots\<rparr>)
            ''/a/k.yml:/a/j.yml'' VNone VNone False = Inr c \<and>
        filenames c = [''/a/k.yml'', ''/a/j.yml'']) \<and>
   (\<exists>c. Config_init ((sample_externals Map.empty)\<lparr>get_root_path := sample_roots\<rparr>)
            ''/t/k.yml:/u/j.yml'' VNone VNone False = Inr c \<and>
        filenames c = [''/t/k.yml'', ''/u/j.yml''])"
proof -
  let ?w = "(sample_externals Map.empty)\<lparr>get_root_path := sample_roots\<rparr> :: (string list, string) externals"
  have s1: "map (abspath ?w) (split_on CHR '':'' ''/a/k.yml:/b/k.yml'') = [''/a/k.yml'', ''/b/k.yml'']"
    and s2: "map (abspath ?w) (split_on CHR '':'' ''/a/k.yml:/t/k.yml'') = [''/a/k.yml'', ''/t/k.yml'']"
    and s3: "map (abspath ?w) (split_on CHR '':'' ''/a/k.yml:/a/j.yml'') = [''/a/k.yml'', ''/a/j.yml'']"
    and s4: "map (abspath ?w) (split_on CHR '':'' ''/t/k.yml:/u/j.yml'') = [''/t/k.yml'', ''/u/j.yml'']"
    by (simp_all add: sample_externals_def)
  have r: "get_root_path ?w = sample_roots" "dirname ?w = (\<lambda>p. p)"
    by (simp_all add: sample_externals_def)
  have "\<exists>msg. Config_init ?w ''/a/k.yml:/b/k.yml'' VNone VNone False = Inl (IncludeException msg)"
    using Config_init_repository_roots [of ?w "''/a/k.yml:/b/k.yml''" VNone VNone False]
    unfolding s1 r by (simp add: sample_roots_def)
  moreover
  have "\<exists>msg. Config_init ?w ''/a/k.yml:/t/k.yml'' VNone VNone False = Inl (IncludeException msg)"
    using Config_init_repository_roots [of ?w "''/a/k.yml:/t/k.yml''" VNone VNone False]
    unfolding s2 r by (simp add: sample_roots_def)
  moreover
  have "\<exists>c. Config_init ?w ''/a/k.yml:/a/j.yml'' VNone VNone False = Inr c \<and>
        filenames c = [''/a/k.yml'', ''/a/j.yml'']"
    using Config_init_repository_roots [of ?w "''/a/k.yml:/a/j.yml''" VNone VNone False]
    unfolding s3 r by (simp add: sample_roots_def) blast
  moreover
  have "\<exists>c. Config_init ?w ''/t/k.yml:/u/j.yml'' VNone VNone False = Inr c \<and>
        filenames c = [''/t/k.yml'', ''/u/j.yml'']"
    using Config_init_repository_roots [of ?w "''/t/k.yml:/u/j.yml''" VNone VNone False]
    unfolding s4 r by (simp add: sample_roots_def) blast
  ultimately show ?thesis by (simp only: simp_thms)
qed

section \<open>The first pass of the convergence loop\<close>

lemma InitSetupRepos_execute_result:
  assumes "InitSetupRepos_execute w ctx = Inr ctx'"
  shows "\<exists>cfg missing.
           handler_get_config w (handler (config ctx)) [] = Inr (cfg, missing) \<and>
           ctx' = ctx\<lparr>config := (config ctx)\<lparr>u_config := cfg\<rparr>,
                      missing_repo_names := missing,
                      missing_repo_names_old := None\<rparr>"
proof (cases "handler_get_config w (handler (config ctx)) []")
  case (Inl e)
  with assms show ?thesis
    by (simp add: InitSetupRepos_execute_def find_missing_repos_def)
next
  case (Inr res)
  obtain cfg missing where "res = (cfg, missing)" by (cases res)
  with Inr assms show ?thesis
    by (simp add: InitSetupRepos_execute_def find_missing_repos_def)
qed

lemma no_previous_not_failed: "\<not> resolving_transition current None Failed"
  by (simp add: resolving_transition.simps failed_condition_def)

lemma transition_exists:
  "resolving_transition current previous Fetching \<or> resolving_transition current previous Converged"
  by (cases "current = []") (simp_all add: resolving_transition.simps)

text \<open>
  C2.  \<^verbatim>\<open>InitSetupRepos.execute\<close> returns whenever the include handler resolves the
  configuration.  When it returns, the field \<^verbatim>\<open>missing_repo_names_old\<close>
  holds \<^verbatim>\<open>None\<close>, which is no set of missing repositories, and \<^verbatim>\<open>missing_repo_names\<close>
  holds the names the include handler has just computed (the stored configuration is
  the handler's too).  So the condition of the transition to Failed does not hold in
  the first pass of the loop: the transition out of Resolving goes to Fetching or to
  Converged, and not to Failed.
\<close>

theorem InitSetupRepos_first_pass:
  "(InitSetupRepos_execute w ctx = Inr ctx' \<longrightarrow>
      missing_repo_names_old ctx' = None \<and>
      (\<forall>names. missing_repo_names_old ctx' \<noteq> Some names) \<and>
      (\<exists>cfg. handler_get_config w (handler (config ctx)) [] = Inr (cfg, missing_repo_names ctx') \<and>
             u_config (config ctx') = cfg) \<and>
      \<not> failed_condition (missing_repo_names ctx') (missing_repo_names_old ctx') \<and>
      \<not> resolving_transition (missing_repo_names ctx') (missing_repo_names_old ctx') Failed \<and>
      (resolving_transition (missing_repo_names ctx') (missing_repo_names_old ctx') Fetching \<or>
       resolving_transition (missing_repo_names ctx') (missing_repo_names_old ctx') Converged)) \<and>
   (handler_get_config w (handler (config ctx)) [] = Inr (cfg, missing) \<longrightarrow>
      InitSetupRepos_execute w ctx =
        Inr (ctx\<lparr>config := (config ctx)\<lparr>u_config := cfg\<rparr>,
                 missing_repo_names := missing,
                 missing_repo_names_old := None\<rparr>))"
proof (rule conjI; rule impI)
  assume a: "InitSetupRepos_execute w ctx = Inr ctx'"
  from InitSetupRepos_execute_result [OF a] obtain cfg missing where
    h: "handler_get_config w (handler (config ctx)) [] = Inr (cfg, missing)" and
    c: "ctx' = ctx\<lparr>config := (config ctx)\<lparr>u_config := cfg\<rparr>,
                      missing_repo_names := missing,
                      missing_repo_names_old := None\<rparr>"
    by (elim exE conjE)
  have old: "missing_repo_names_old ctx' = None" and cur: "missing_repo_names ctx' = missing"
    and cf: "u_config (config ctx') = cfg"
    by (simp_all add: c)
  show "missing_repo_names_old ctx' = None \<and>
      (\<forall>names. missing_repo_names_old ctx' \<noteq> Some names) \<and>
      (\<exists>cfg. handler_get_config w (handler (config ctx)) [] = Inr (cfg, missing_repo_names ctx') \<and>
             u_config (config ctx') = cfg) \<and>
      \<not> failed_condition (missing_repo_names ctx') (missing_repo_names_old ctx') \<and>
      \<not> resolving_transition (missing_repo_names ctx') (missing_repo_names_old ctx') Failed \<and>
      (resolving_transition (missing_repo_names ctx') (missing_repo_names_old ctx') Fetching \<or>
       resolving_transition (missing_repo_names ctx') (missing_repo_names_old ctx') Converged)"
    unfolding old cur cf
    using h transition_exists [of missing None]
    by (simp add: no_previous_not_failed failed_condition_def)
next
  assume "handler_get_config w (handler (config ctx)) [] = Inr (cfg, missing)"
  then show "InitSetupRepos_execute w ctx =
        Inr (ctx\<lparr>config := (config ctx)\<lparr>u_config := cfg\<rparr>,
                 missing_repo_names := missing,
                 missing_repo_names_old := None\<rparr>)"
    by (simp add: InitSetupRepos_execute_def find_missing_repos_def)
qed

theorem InitSetupRepos_first_pass_witness:
  "InitSetupRepos_execute
     ((sample_externals Map.empty)
        \<lparr>handler_get_config := (\<lambda>h repos. Inr ([(''machine'', VStr ''qemuarm'')], [''meta-foo'']))\<rparr>)
     \<lparr>config = sample_config VNone [], missing_repo_names = [''stale''],
      missing_repo_names_old = Some [''stale'']\<rparr>
   = Inr \<lparr>config = sample_config VNone [(''machine'', VStr ''qemuarm'')],
          missing_repo_names = [''meta-foo''], missing_repo_names_old = None\<rparr> \<and>
   \<not> resolving_transition [''meta-foo''] None Failed \<and>
   resolving_transition [''meta-foo''] None Fetching"
proof -
  let ?w = "(sample_externals Map.empty)
        \<lparr>handler_get_config := (\<lambda>h repos. Inr ([(''machine'', VStr ''qemuarm'')], [''meta-foo'']))\<rparr>
        :: (string list, string) externals"
  let ?ctx = "\<lparr>config = sample_config VNone [], missing_repo_names = [''stale''],
      missing_repo_names_old = Some [''stale'']\<rparr> :: (string list, string) ExecutionContext"
  let ?ctx' = "\<lparr>config = sample_config VNone [(''machine'', VStr ''qemuarm'')],
          missing_repo_names = [''meta-foo''], missing_repo_names_old = None\<rparr>
          :: (string list, string) ExecutionContext"
  have e: "InitSetupRepos_execute ?w ?ctx = Inr ?ctx'"
    by (simp add: InitSetupRepos_execute_def find_missing_repos_def sample_externals_def
        sample_config_def)
  have "\<not> resolving_transition [''meta-foo''] None Failed \<and>
        (resolving_transition [''meta-foo''] None Fetching \<or>
         resolving_transition [''meta-foo''] None Converged)"
    using InitSetupRepos_first_pass [THEN conjunct1, THEN mp, OF e] by simp
  moreover have "\<not> resolving_transition [''meta-foo''] None Converged"
    by (simp add: resolving_transition.simps)
  ultimately show ?thesis using e by (simp only: simp_thms)
qed

section \<open>Repository handles follow the configuration\<close>

lemma get_repo_frame: "get_repo w (c\<lparr>repo_dict := rd\<rparr>) name = get_repo w c name"
  by (simp add: get_repo_def get_repos_config_def cong: sum.case_cong)

lemma get_repo_dict_frame: "get_repo_dict w (c\<lparr>repo_dict := rd\<rparr>) = get_repo_dict w c"
  by (simp add: get_repo_dict_def get_repos_config_def get_repo_frame
      cong: pyval.case_cong list.case_cong)

lemma get_repos_frame: "get_repos w (c\<lparr>repo_dict := rd\<rparr>) = get_repos w c"
  by (simp add: get_repos_def get_repo_dict_frame cong: sum.case_cong)

lemma get_repo_dict_mapping:
  assumes "map_of (u_config c) ''repos'' = Some (VDict d)"
  shows "get_repo_dict w c =
           traverse (\<lambda>name. case get_repo w c name of Inl e \<Rightarrow> Inl e | Inr r \<Rightarrow> Inr (name, r))
             (map fst d)"
  using assms by (simp add: get_repo_dict_def get_repos_config_def dict_get_def)

lemma traverse_Inr_D:
  assumes "traverse f xs = Inr ys"
  shows "length ys = length xs \<and> (\<forall>i<length xs. f (xs ! i) = Inr (ys ! i))"
  using assms
proof (induction xs arbitrary: ys)
  case Nil
  then show ?case by simp
next
  case (Cons x xs)
  from Cons.prems obtain y where y: "f x = Inr y"
    by (cases "f x") simp_all
  from Cons.prems y obtain zs where zs: "traverse f xs = Inr zs"
    by (cases "traverse f xs") simp_all
  from Cons.prems y zs have ys: "ys = y # zs" by simp
  from Cons.IH [OF zs] have len: "length zs = length xs"
    and nth: "\<forall>i<length xs. f (xs ! i) = Inr (zs ! i)" by simp_all
  have "\<forall>i<length (x # xs). f ((x # xs) ! i) = Inr (ys ! i)"
  proof (intro allI impI)
    fix i assume i: "i < length (x # xs)"
    show "f ((x # xs) ! i) = Inr (ys ! i)"
    proof (cases i)
      case 0
      then show ?thesis by (simp add: ys y)
    next
      case (Suc j)
      with i have "j < length xs" by simp
      with nth have "f (xs ! j) = Inr (zs ! j)" by simp
      with Suc show ?thesis by (simp add: ys)
    qed
  qed
  with len show ?case by (simp add: ys)
qed

lemma get_repo_dict_entries:
  assumes "traverse (\<lambda>name. case g name of Inl e \<Rightarrow> Inl e | Inr r \<Rightarrow> Inr (name, r)) names = Inr rd"
  shows "map fst rd = names \<and> length rd = length names \<and>
         (\<forall>i<length names. g (names ! i) = Inr (snd (rd ! i)))"
proof -
  let ?f = "\<lambda>name. case g name of Inl e \<Rightarrow> Inl e | Inr r \<Rightarrow> Inr (name, r)"
  from traverse_Inr_D [OF assms] have len: "length rd = length names"
    and nth: "\<forall>i<length names. ?f (names ! i) = Inr (rd ! i)" by simp_all
  have each: "\<forall>i<length names. g (names ! i) = Inr (snd (rd ! i)) \<and> fst (rd ! i) = names ! i"
  proof (intro allI impI)
    fix i assume "i < length names"
    with nth have e: "?f (names ! i) = Inr (rd ! i)" by simp
    then obtain r where r: "g (names ! i) = Inr r"
      by (cases "g (names ! i)") simp_all
    with e have "rd ! i = (names ! i, r)" by simp
    with r show "g (names ! i) = Inr (snd (rd ! i)) \<and> fst (rd ! i) = names ! i" by simp
  qed
  have "map fst rd = names"
    by (rule nth_equalityI) (simp_all add: len each)
  with len each show ?thesis by simp
qed

lemma get_repos_mapping:
  assumes repos: "map_of (u_config c) ''repos'' = Some (VDict d)"
      and res: "get_repos w c = Inr (c', hs)"
  shows "length hs = length d \<and>
         (\<forall>i<length d. get_repo w c (fst (d ! i)) = Inr (hs ! i)) \<and>
         c' = c\<lparr>repo_dict := zip (map fst d) hs\<rparr>"
proof -
  from res obtain rd where rd: "get_repo_dict w c = Inr rd"
    by (cases "get_repo_dict w c") (simp_all add: get_repos_def)
  with res have c': "c' = c\<lparr>repo_dict := rd\<rparr>" and hs: "hs = map snd rd"
    by (simp_all add: get_repos_def)
  from rd have "traverse (\<lambda>name. case get_repo w c name of Inl e \<Rightarrow> Inl e | Inr r \<Rightarrow> Inr (name, r))
             (map fst d) = Inr rd"
    by (simp only: get_repo_dict_mapping [OF repos])
  from get_repo_dict_entries [OF this]
  have names: "map fst rd = map fst d" and len: "length rd = length d"
    and each: "\<forall>i<length d. get_repo w c (map fst d ! i) = Inr (snd (rd ! i))"
    by simp_all
  have "rd = zip (map fst d) hs"
    unfolding hs names [symmetric] by (simp add: zip_map_fst_snd)
  moreover have "\<forall>i<length d. get_repo w c (fst (d ! i)) = Inr (hs ! i)"
    using each len by (simp add: hs)
  ultimately show ?thesis using len c' by (simp add: hs)
qed

lemma find_missing_repos_result:
  assumes "find_missing_repos w c paths = Inr (c1, missing)"
  shows "\<exists>cfg. handler_get_config w (handler c) paths = Inr (cfg, missing) \<and>
               c1 = c\<lparr>u_config := cfg\<rparr>"
proof (cases "handler_get_config w (handler c) paths")
  case (Inl e)
  with assms show ?thesis by (simp add: find_missing_repos_def)
next
  case (Inr res)
  obtain cfg m where "res = (cfg, m)" by (cases res)
  with Inr assms show ?thesis by (simp add: find_missing_repos_def)
qed

lemma traverse_total:
  assumes "\<forall>x\<in>set xs. \<exists>y. f x = Inr y"
  shows "\<exists>ys. traverse f xs = Inr ys"
  using assms
proof (induction xs)
  case Nil
  show ?case by simp
next
  case (Cons x xs)
  from Cons.prems obtain y where y: "f x = Inr y" by auto
  from Cons.prems have "\<forall>x\<in>set xs. \<exists>y. f x = Inr y" by simp
  from Cons.IH [OF this] obtain ys where "traverse f xs = Inr ys" ..
  with y show ?case by simp
qed

lemma get_repos_total:
  assumes repos: "map_of (u_config c) ''repos'' = Some (VDict d)"
      and ok: "\<forall>name\<in>set (map fst d). \<exists>h. get_repo w c name = Inr h"
  shows "\<exists>c' hs. get_repos w c = Inr (c', hs)"
proof -
  let ?f = "\<lambda>name. case get_repo w c name of Inl e \<Rightarrow> Inl e | Inr r \<Rightarrow> Inr (name, r)"
  have "\<forall>name\<in>set (map fst d). \<exists>p. ?f name = Inr p"
  proof
    fix name assume "name \<in> set (map fst d)"
    with ok obtain h where "get_repo w c name = Inr h" by auto
    then show "\<exists>p. ?f name = Inr p" by simp
  qed
  from traverse_total [OF this] obtain rd where "traverse ?f (map fst d) = Inr rd" ..
  then have "get_repo_dict w c = Inr rd"
    by (simp only: get_repo_dict_mapping [OF repos])
  then show ?thesis by (simp add: get_repos_def)
qed

text \<open>
  C6.  \<^verbatim>\<open>get_repos\<close> does not read the stored \<^verbatim>\<open>repo_dict\<close>: whatever it holds, the
  result is the same.  When the \<^verbatim>\<open>repos\<close> entry of the current configuration is a
  mapping and the call returns, it returns one handle per name of that mapping, the
  handle \<^verbatim>\<open>get_repo\<close> builds for the name, in the mapping's order, and stores them under
  these names; it returns whenever \<^verbatim>\<open>get_repo\<close> does for every name.  In particular, after \<^verbatim>\<open>find_missing_repos\<close> has replaced the stored
  configuration by the one the include handler resolved, the handles are those of the
  new \<^verbatim>\<open>repos\<close> mapping.
\<close>

theorem get_repos_rederives:
  "get_repos w (c\<lparr>repo_dict := stale\<rparr>) = get_repos w c \<and>
   (map_of (u_config c) ''repos'' = Some (VDict d) \<and> get_repos w c = Inr (c', hs) \<longrightarrow>
      length hs = length d \<and>
      (\<forall>i<length d. get_repo w c (fst (d ! i)) = Inr (hs ! i)) \<and>
      c' = c\<lparr>repo_dict := zip (map fst d) hs\<rparr>) \<and>
   (map_of (u_config c) ''repos'' = None \<longrightarrow> get_repos w c = Inr (c\<lparr>repo_dict := []\<rparr>, [])) \<and>
   (map_of (u_config c) ''repos'' = Some (VDict d) \<and>
    (\<forall>name\<in>set (map fst d). \<exists>h. get_repo w c name = Inr h) \<longrightarrow>
      (\<exists>c' hs. get_repos w c = Inr (c', hs))) \<and>
   (find_missing_repos w c paths = Inr (c1, missing) \<and>
    map_of (u_config c1) ''repos'' = Some (VDict d1) \<and> get_repos w c1 = Inr (c2, hs1) \<longrightarrow>
      (\<exists>cfg. handler_get_config w (handler c) paths = Inr (cfg, missing) \<and>
             map_of cfg ''repos'' = Some (VDict d1)) \<and>
      map fst (repo_dict c2) = map fst d1 \<and> map snd (repo_dict c2) = hs1 \<and>
      length hs1 = length d1)"
proof (intro conjI impI)
  show "get_repos w (c\<lparr>repo_dict := stale\<rparr>) = get_repos w c"
    by (rule get_repos_frame)
next
  assume "map_of (u_config c) ''repos'' = Some (VDict d) \<and> get_repos w c = Inr (c', hs)"
  then have a: "map_of (u_config c) ''repos'' = Some (VDict d)" and b: "get_repos w c = Inr (c', hs)"
    by simp_all
  from get_repos_mapping [OF a b]
  show "length hs = length d" and "\<forall>i<length d. get_repo w c (fst (d ! i)) = Inr (hs ! i)"
    and "c' = c\<lparr>repo_dict := zip (map fst d) hs\<rparr>"
    by simp_all
next
  assume "map_of (u_config c) ''repos'' = None"
  then show "get_repos w c = Inr (c\<lparr>repo_dict := []\<rparr>, [])"
    by (simp add: get_repos_def get_repo_dict_def get_repos_config_def dict_get_def)
next
  assume "map_of (u_config c) ''repos'' = Some (VDict d) \<and>
    (\<forall>name\<in>set (map fst d). \<exists>h. get_repo w c name = Inr h)"
  then have a: "map_of (u_config c) ''repos'' = Some (VDict d)"
    and b: "\<forall>name\<in>set (map fst d). \<exists>h. get_repo w c name = Inr h"
    by simp_all
  from a b show "\<exists>c' hs. get_repos w c = Inr (c', hs)" by (rule get_repos_total)
next
  assume "find_missing_repos w c paths = Inr (c1, missing) \<and>
    map_of (u_config c1) ''repos'' = Some (VDict d1) \<and> get_repos w c1 = Inr (c2, hs1)"
  then have f: "find_missing_repos w c paths = Inr (c1, missing)"
    and a: "map_of (u_config c1) ''repos'' = Some (VDict d1)"
    and b: "get_repos w c1 = Inr (c2, hs1)"
    by simp_all
  from find_missing_repos_result [OF f] obtain cfg where
    h: "handler_get_config w (handler c) paths = Inr (cfg, missing)" and c1: "c1 = c\<lparr>u_config := cfg\<rparr>"
    by (elim exE conjE)
  from a c1 have "map_of cfg ''repos'' = Some (VDict d1)" by simp
  with h show "\<exists>cfg. handler_get_config w (handler c) paths = Inr (cfg, missing) \<and>
             map_of cfg ''repos'' = Some (VDict d1)"
    by (intro exI [of _ cfg] conjI)
  from get_repos_mapping [OF a b]
  have len: "length hs1 = length d1" and c2: "c2 = c1\<lparr>repo_dict := zip (map fst d1) hs1\<rparr>"
    by simp_all
  from len show "length hs1 = length d1" .
  from len show "map fst (repo_dict c2) = map fst d1" by (simp add: c2)
  from len show "map snd (repo_dict c2) = hs1" by (simp add: c2)
qed

theorem get_repos_rederives_witness:
  "find_missing_repos
     ((sample_externals Map.empty)
        \<lparr>handler_get_config :=
           (\<lambda>h repos. Inr ([(''repos'', VDict [(''meta-a'', VNone), (''meta-b'', VDict [])])], []))\<rparr>)
     ((sample_config VNone [(''repos'', VDict [(''old'', VNone)])])\<lparr>repo_dict := [(''old'', ''old'')]\<rparr>)
     []
   = Inr ((sample_config VNone [(''repos'', VDict [(''meta-a'', VNone), (''meta-b'', VDict [])])])
            \<lparr>repo_dict := [(''old'', ''old'')]\<rparr>, []) \<and>
   get_repos
     ((sample_externals Map.empty)
        \<lparr>handler_get_config :=
           (\<lambda>h repos. Inr ([(''repos'', VDict [(''meta-a'', VNone), (''meta-b'', VDict [])])], []))\<rparr>)
     ((sample_config VNone [(''repos'', VDict [(''meta-a'', VNone), (''meta-b'', VDict [])])])
            \<lparr>repo_dict := [(''old'', ''old'')]\<rparr>)
   = Inr ((sample_config VNone [(''repos'', VDict [(''meta-a'', VNone), (''meta-b'', VDict [])])])
            \<lparr>repo_dict := [(''meta-a'', ''meta-a''), (''meta-b'', ''meta-b'')]\<rparr>,
          [''meta-a'', ''meta-b'']) \<and>
   map fst (repo_dict ((sample_config VNone [(''repos'', VDict [(''meta-a'', VNone), (''meta-b'', VDict [])])])
            \<lparr>repo_dict := [(''meta-a'', ''meta-a''), (''meta-b'', ''meta-b'')]\<rparr>))
     = map fst [(''meta-a'', VNone), (''meta-b'', VDict [])]"
proof -
  let ?new = "[(''meta-a'', VNone), (''meta-b'', VDict [])]"
  let ?w = "(sample_externals Map.empty)
        \<lparr>handler_get_config := (\<lambda>h repos. Inr ([(''repos'', VDict ?new)], []))\<rparr>
        :: (string list, string) externals"
  let ?c0 = "(sample_config VNone [(''repos'', VDict [(''old'', VNone)])])\<lparr>repo_dict := [(''old'', ''old'')]\<rparr>"
  let ?c1 = "(sample_config VNone [(''repos'', VDict ?new)])\<lparr>repo_dict := [(''old'', ''old'')]\<rparr>"
  let ?c2 = "(sample_config VNone [(''repos'', VDict ?new)])
            \<lparr>repo_dict := [(''meta-a'', ''meta-a''), (''meta-b'', ''meta-b'')]\<rparr>"
  let ?hs = "[''meta-a'', ''meta-b'']"
  have e1: "find_missing_repos ?w ?c0 [] = Inr (?c1, [])"
    by (simp add: find_missing_repos_def sample_externals_def sample_config_def)
  have a: "map_of (u_config ?c1) ''repos'' = Some (VDict ?new)"
    by (simp add: sample_config_def)
  have e2: "get_repos ?w ?c1 = Inr (?c2, ?hs)"
    by (simp add: get_repos_def get_repo_dict_def get_repos_config_def get_repo_def dict_get_def
        val_get_def subscript_def sample_externals_def sample_config_def)
  have "map fst (repo_dict ?c2) = map fst ?new"
    using get_repos_rederives [where w = ?w and c = ?c0 and paths = "[]" and ?c1.0 = ?c1
        and missing = "[]" and ?d1.0 = ?new and ?c2.0 = ?c2 and ?hs1.0 = ?hs] e1 a e2
    by (simp only: simp_thms)
  with e1 e2 show ?thesis by (simp only: simp_thms)
qed

section \<open>Layers of a repository entry\<close>

lemma map_of_dict_update_rev:
  "map_of (dict_update base layer) = map_of base ++ map_of (rev layer)"
  unfolding dict_update_def
proof (induction layer arbitrary: base)
  case Nil
  show ?case by simp
next
  case (Cons kv layer)
  have "map_of (foldl (\<lambda>acc kv. AList.update (fst kv) (snd kv) acc) base (kv # layer)) =
        map_of (AList.update (fst kv) (snd kv) base) ++ map_of (rev layer)"
    by (simp add: Cons.IH)
  also have "\<dots> = (map_of base)(fst kv \<mapsto> snd kv) ++ map_of (rev layer)"
    by (simp add: update_conv')
  also have "\<dots> = map_of base ++ map_of (rev (kv # layer))"
    by (cases kv) (simp add: map_add_upd_left fun_eq_iff map_add_def split: option.splits)
  finally show ?case .
qed

lemma map_of_rev_distinct:
  assumes "distinct (map fst xs)"
  shows "map_of (rev xs) = map_of xs"
proof -
  have "distinct (map fst (rev xs))" using assms by (simp add: rev_map [symmetric])
  from map_of_inject_set [OF this assms] show ?thesis by simp
qed

lemma map_of_dict_update:
  assumes "distinct (map fst layer)"
  shows "map_of (dict_update base layer) k =
           (case map_of layer k of Some v \<Rightarrow> Some v | None \<Rightarrow> map_of base k)"
  by (simp add: map_of_dict_update_rev map_of_rev_distinct [OF assms] map_add_def)

lemma get_repo_spec_factory:
  assumes factory: "Repo_factory w = Repo_factory_spec"
      and dflt: "val_get (dict_get (u_config c) ''defaults'' (VDict [])) ''repos'' (VDict []) = Inr (VDict dflt)"
      and ovs: "val_get (dict_get (u_config c) ''overrides'' (VDict [])) ''repos'' (VDict []) = Inr (VDict ovs)"
      and ov: "dict_get ovs name (VDict []) = VDict ov"
      and repos: "map_of (u_config c) ''repos'' = Some (VDict repos)"
      and entry: "map_of repos name = Some entry"
      and own: "(if truthy entry then entry else VDict []) = VDict own"
  shows "get_repo w c name =
           Inr \<lparr> repo_name = name,
                 repo_fields = dict_update (dict_update dflt own) ov,
                 fallback_path = get_top_repo_path w (handler c) \<rparr>"
proof -
  have 1: "val_get (VDict ovs) name (VDict []) = Inr (VDict ov)"
    by (simp add: val_get_def ov)
  have 2: "subscript (get_repos_config c) name = Inr entry"
    by (simp add: subscript_def get_repos_config_def dict_get_def repos entry)
  show ?thesis
    by (simp add: get_repo_def dflt ovs 1 2 own factory Repo_factory_spec_def)
qed

text \<open>
  C5.  With the repository factory of the specification, \<^verbatim>\<open>get_repo\<close> for a name of
  the \<^verbatim>\<open>repos\<close> mapping returns a handle of that name whose fields are looked up in the
  overrides of the name first, then in the repository's own entry, then in the
  defaults.  In particular, with the default branch \<^verbatim>\<open>main\<close>, no branch in the entry of
  \<^verbatim>\<open>foo\<close> and the override branch \<^verbatim>\<open>release\<close>, the handle of \<^verbatim>\<open>foo\<close> has the branch
  \<^verbatim>\<open>release\<close>.
\<close>

theorem get_repo_layering:
  assumes factory: "Repo_factory w = Repo_factory_spec"
  shows
    "(val_get (dict_get (u_config c) ''defaults'' (VDict [])) ''repos'' (VDict []) = Inr (VDict dflt) \<and>
      val_get (dict_get (u_config c) ''overrides'' (VDict [])) ''repos'' (VDict []) = Inr (VDict ovs) \<and>
      dict_get ovs name (VDict []) = VDict ov \<and>
      map_of (u_config c) ''repos'' = Some (VDict repos) \<and> map_of repos name = Some entry \<and>
      (if truthy entry then entry else VDict []) = VDict own \<and>
      distinct (map fst own) \<and> distinct (map fst ov)
      \<longrightarrow> (\<exists>h. get_repo w c name = Inr h \<and> repo_name h = name \<and>
             (\<forall>k. map_of (repo_fields h) k =
                (case map_of ov k of
                   Some v \<Rightarrow> Some v
                 | None \<Rightarrow> (case map_of own k of Some v \<Rightarrow> Some v | None \<Rightarrow> map_of dflt k))))) \<and>
     (map_of (u_config c) ''defaults'' = Some (VDict defaults) \<and>
      map_of defaults ''repos'' = Some (VDict dflt) \<and>
      map_of dflt ''branch'' = Some (VStr ''main'') \<and>
      map_of (u_config c) ''repos'' = Some (VDict repos) \<and>
      map_of repos ''foo'' = Some (VDict own) \<and> map_of own ''branch'' = None \<and>
      map_of (u_config c) ''overrides'' = Some (VDict overrides) \<and>
      map_of overrides ''repos'' = Some (VDict ovs) \<and>
      map_of ovs ''foo'' = Some (VDict ov) \<and>
      map_of ov ''branch'' = Some (VStr ''release'') \<and> distinct (map fst ov)
      \<longrightarrow> (\<exists>h. get_repo w c ''foo'' = Inr h \<and> branch h = Some (VStr ''release'')))"
proof (intro conjI impI)
  assume a: "val_get (dict_get (u_config c) ''defaults'' (VDict [])) ''repos'' (VDict []) = Inr (VDict dflt) \<and>
      val_get (dict_get (u_config c) ''overrides'' (VDict [])) ''repos'' (VDict []) = Inr (VDict ovs) \<and>
      dict_get ovs name (VDict []) = VDict ov \<and>
      map_of (u_config c) ''repos'' = Some (VDict repos) \<and> map_of repos name = Some entry \<and>
      (if truthy entry then entry else VDict []) = VDict own \<and>
      distinct (map fst own) \<and> distinct (map fst ov)"
  let ?h = "\<lparr> repo_name = name, repo_fields = dict_update (dict_update dflt own) ov,
              fallback_path = get_top_repo_path w (handler c) \<rparr>"
  from a have a1: "val_get (dict_get (u_config c) ''defaults'' (VDict [])) ''repos'' (VDict []) = Inr (VDict dflt)"
    and a2: "val_get (dict_get (u_config c) ''overrides'' (VDict [])) ''repos'' (VDict []) = Inr (VDict ovs)"
    and a3: "dict_get ovs name (VDict []) = VDict ov"
    and a4: "map_of (u_config c) ''repos'' = Some (VDict repos)"
    and a5: "map_of repos name = Some entry"
    and a6: "(if truthy entry then entry else VDict []) = VDict own"
    by simp_all
  have g: "get_repo w c name = Inr ?h"
    by (rule get_repo_spec_factory [OF factory a1 a2 a3 a4 a5 a6])
  from a have d: "distinct (map fst own)" "distinct (map fst ov)" by simp_all
  have "\<forall>k. map_of (repo_fields ?h) k =
                (case map_of ov k of
                   Some v \<Rightarrow> Some v
                 | None \<Rightarrow> (case map_of own k of Some v \<Rightarrow> Some v | None \<Rightarrow> map_of dflt k))"
    by (simp add: map_of_dict_update [OF d(1)] map_of_dict_update [OF d(2)] cong: option.case_cong)
  with g show "\<exists>h. get_repo w c name = Inr h \<and> repo_name h = name \<and>
             (\<forall>k. map_of (repo_fields h) k =
                (case map_of ov k of
                   Some v \<Rightarrow> Some v
                 | None \<Rightarrow> (case map_of own k of Some v \<Rightarrow> Some v | None \<Rightarrow> map_of dflt k)))"
    by (intro exI [of _ ?h]) simp
next
  assume a: "map_of (u_config c) ''defaults'' = Some (VDict defaults) \<and>
      map_of defaults ''repos'' = Some (VDict dflt) \<and>
      map_of dflt ''branch'' = Some (VStr ''main'') \<and>
      map_of (u_config c) ''repos'' = Some (VDict repos) \<and>
      map_of repos ''foo'' = Some (VDict own) \<and> map_of own ''branch'' = None \<and>
      map_of (u_config c) ''overrides'' = Some (VDict overrides) \<and>
      map_of overrides ''repos'' = Some (VDict ovs) \<and>
      map_of ovs ''foo'' = Some (VDict ov) \<and>
      map_of ov ''branch'' = Some (VStr ''release'') \<and> distinct (map fst ov)"
  let ?h = "\<lparr> repo_name = ''foo'', repo_fields = dict_update (dict_update dflt own) ov,
              fallback_path = get_top_repo_path w (handler c) \<rparr>"
  have g: "get_repo w c ''foo'' = Inr ?h"
  proof (rule get_repo_spec_factory [OF factory])
    show "val_get (dict_get (u_config c) ''defaults'' (VDict [])) ''repos'' (VDict []) = Inr (VDict dflt)"
      using a by (simp add: val_get_def dict_get_def)
    show "val_get (dict_get (u_config c) ''overrides'' (VDict [])) ''repos'' (VDict []) = Inr (VDict ovs)"
      using a by (simp add: val_get_def dict_get_def)
    show "dict_get ovs ''foo'' (VDict []) = VDict ov"
      using a by (simp add: dict_get_def)
    show "map_of (u_config c) ''repos'' = Some (VDict repos)" using a by simp
    show "map_of repos ''foo'' = Some (VDict own)" using a by simp
    show "(if truthy (VDict own) then VDict own else VDict []) = VDict own" by simp
  qed
  from a have d: "distinct (map fst ov)" and r: "map_of ov ''branch'' = Some (VStr ''release'')"
    by simp_all
  have "branch ?h = Some (VStr ''release'')"
    by (simp add: branch_def map_of_dict_update [OF d] r)
  with g show "\<exists>h. get_repo w c ''foo'' = Inr h \<and> branch h = Some (VStr ''release'')"
    by (intro exI [of _ ?h]) simp
qed

theorem get_repo_layering_witness:
  "\<exists>h. get_repo sample_spec_externals sample_layered_config ''foo'' = Inr h \<and>
       repo_name h = ''foo'' \<and>
       branch h = Some (VStr ''release'') \<and>
       map_of (repo_fields h) ''url'' = Some (VStr ''https://example.org/foo.git'')"
proof -
  let ?w = sample_spec_externals
  let ?c = sample_layered_config
  let ?dflt = "[(''branch'', VStr ''main'')]"
  let ?own = "[(''url'', VStr ''https://example.org/foo.git'')]"
  let ?ov = "[(''branch'', VStr ''release'')]"
  have f: "Repo_factory ?w = Repo_factory_spec"
    by (simp add: sample_spec_externals_def)
  have hyp: "val_get (dict_get (u_config ?c) ''defaults'' (VDict [])) ''repos'' (VDict []) = Inr (VDict ?dflt) \<and>
      val_get (dict_get (u_config ?c) ''overrides'' (VDict [])) ''repos'' (VDict []) = Inr (VDict [(''foo'', VDict ?ov)]) \<and>
      dict_get [(''foo'', VDict ?ov)] ''foo'' (VDict []) = VDict ?ov \<and>
      map_of (u_config ?c) ''repos'' = Some (VDict [(''foo'', VDict ?own)]) \<and>
      map_of [(''foo'', VDict ?own)] ''foo'' = Some (VDict ?own) \<and>
      (if truthy (VDict ?own) then VDict ?own else VDict []) = VDict ?own \<and>
      distinct (map fst ?own) \<and> distinct (map fst ?ov)"
    by (simp add: sample_layered_config_def val_get_def dict_get_def)
  from get_repo_layering [OF f, THEN conjunct1, THEN mp, OF hyp]
  obtain h where h: "get_repo ?w ?c ''foo'' = Inr h" "repo_name h = ''foo''"
    and fields: "\<forall>k. map_of (repo_fields h) k =
                (case map_of ?ov k of
                   Some v \<Rightarrow> Some v
                 | None \<Rightarrow> (case map_of ?own k of Some v \<Rightarrow> Some v | None \<Rightarrow> map_of ?dflt k))"
    by (elim exE conjE)
  from fields have "map_of (repo_fields h) ''branch'' = Some (VStr ''release'')"
    and "map_of (repo_fields h) ''url'' = Some (VStr ''https://example.org/foo.git'')"
    by simp_all
  with h show ?thesis
    by (intro exI [of _ h]) (simp add: branch_def)
qed


end
